theory Spec2Isabelle
  imports Complex_Main "HOL-Library.Word"
begin

section \<open>Strings and numbers of the source language\<close>

text \<open>
  A TypeScript string is a sequence of UTF-16 code units; \<open>length\<close>, \<open>substring\<close> and
  \<open>split\<close> count code units. A string is therefore a list of 16-bit words, and
  \<open>js\<close> embeds an ASCII literal. Numbers are IEEE doubles; each component below says
  how it models the ones it uses.
\<close>

type_synonym jsstring = "16 word list"

definition js :: "string \<Rightarrow> jsstring" where
  "js s = map of_char s"

section \<open>Pagination engine (Reader component)\<close>

text \<open>
  The numbers of the engine are IEEE doubles. The engine uses them through \<open>+\<close>, \<open>-\<close>,
  \<open>*\<close>, \<open>\<le>\<close> (\<open>a >= b\<close> is \<open>b <= a\<close>) and the constants \<open>0\<close>, \<open>8\<close> and \<open>1.5\<close> only.
  These are the record \<open>arith\<close>, a parameter of the model: nothing is assumed of the
  operations, so what is proved holds of the doubles' own, with their rounding, their
  infinities and \<open>NaN\<close>. \<open>realArith\<close> is exact arithmetic; the concrete runs below use
  it on small integers and halves, where double arithmetic is exact too. Character counts
  and indices are integers far below \<open>2^53\<close>, which doubles represent exactly.
\<close>

record 'n arith =
  numAdd :: "'n \<Rightarrow> 'n \<Rightarrow> 'n"
  numSub :: "'n \<Rightarrow> 'n \<Rightarrow> 'n"
  numMul :: "'n \<Rightarrow> 'n \<Rightarrow> 'n"
  numLe :: "'n \<Rightarrow> 'n \<Rightarrow> bool"
  numZero :: 'n
  numEight :: 'n
  numThreeHalves :: 'n

definition realArith :: "real arith" where
  "realArith = \<lparr>numAdd = (+), numSub = (-), numMul = (*), numLe = (\<le>),
                 numZero = 0, numEight = 8, numThreeHalves = 3 / 2\<rparr>"

record PageParagraph =
  "text" :: jsstring
  fullText :: jsstring
  isContinuation :: bool

record PageData =
  paragraphs :: "PageParagraph list"
  showTitle :: bool

text \<open>
  \<open>findSplitPoint\<close>: binary search for the largest character count in \<open>1..length-1\<close> whose
  prefix fits \<open>maxHeight\<close>. The measurer element is written (\<open>textContent\<close>) immediately
  before each read of \<open>offsetHeight\<close>, so a read is the measurement function \<open>measurer\<close>
  applied to the string just written.
\<close>

function findSplitLoop ::
  "'n arith \<Rightarrow> (jsstring \<Rightarrow> 'n) \<Rightarrow> jsstring \<Rightarrow> 'n \<Rightarrow> int \<Rightarrow> int \<Rightarrow> int \<Rightarrow> int" where
  "findSplitLoop ar measurer txt maxHeight lo hi best =
     (if lo \<le> hi then
        (let mid = (lo + hi) div 2 in
         if numLe ar (measurer (take (nat mid) txt)) maxHeight
         then findSplitLoop ar measurer txt maxHeight (mid + 1) hi mid
         else findSplitLoop ar measurer txt maxHeight lo (mid - 1) best)
      else best)"
  by pat_completeness auto
termination
  by (relation "measure (\<lambda>(ar, m, t, mh, lo, hi, b). nat (hi - lo + 1))") auto

definition findSplitPoint :: "'n arith \<Rightarrow> (jsstring \<Rightarrow> 'n) \<Rightarrow> jsstring \<Rightarrow> 'n \<Rightarrow> int" where
  "findSplitPoint ar measurer txt maxHeight =
     findSplitLoop ar measurer txt maxHeight 1 (int (length txt) - 1) 0"

text \<open>
  The mutable locals of \<open>paginateParagraphs\<close>: the finished pages, the fragments of the
  page being filled and the height already used on it.
\<close>

record 'n pstate =
  pages :: "PageData list"
  currentPageParas :: "PageParagraph list"
  currentHeight :: 'n

definition wrapParas :: "jsstring list \<Rightarrow> PageParagraph list" where
  "wrapParas ps = map (\<lambda>p. \<lparr>text = p, fullText = p, isContinuation = False\<rparr>) ps"

definition pushPara :: "PageParagraph \<Rightarrow> 'n pstate \<Rightarrow> 'n pstate" where
  "pushPara f st = st\<lparr>currentPageParas := currentPageParas st @ [f]\<rparr>"

definition flushPage :: "'n arith \<Rightarrow> 'n pstate \<Rightarrow> 'n pstate" where
  "flushPage ar st =
     \<lparr>pages = pages st @ [\<lparr>paragraphs = currentPageParas st, showTitle = (length (pages st) = 0)\<rparr>],
      currentPageParas = [],
      currentHeight = numZero ar\<rparr>"

text \<open>
  One iteration of the inner \<open>while (remaining.length > 0)\<close> loop, entered with a
  non-empty \<open>remaining\<close>. \<open>Break\<close> leaves the loop with the given state; \<open>Continue\<close> starts
  the next iteration with new values of \<open>remaining\<close> and \<open>isFirstFragment\<close>.
\<close>

datatype 'n loopStep = Break "'n pstate" | Continue jsstring bool "'n pstate"

definition placeStep ::
  "'n arith \<Rightarrow> (jsstring \<Rightarrow> 'n) \<Rightarrow> 'n \<Rightarrow> 'n \<Rightarrow> 'n \<Rightarrow> jsstring \<Rightarrow> jsstring \<Rightarrow> bool \<Rightarrow> 'n pstate
     \<Rightarrow> 'n loopStep" where
  "placeStep ar measurer safeHeight spacingPx minLineHeight fullTxt remaining isFirstFragment st =
     (let paraHeight = measurer remaining;
          gap = (if length (currentPageParas st) > 0 then spacingPx else numZero ar);
          needed = numAdd ar paraHeight gap;
          space = numSub ar safeHeight (currentHeight st)
      in if numLe ar needed space then
           Break ((pushPara \<lparr>text = remaining, fullText = fullTxt,
                              isContinuation = \<not> isFirstFragment\<rparr> st)
                    \<lparr>currentHeight := numAdd ar (currentHeight st) needed\<rparr>)
         else
           (let spaceForText = numSub ar space gap;
                splitIdx = (if numLe ar minLineHeight spaceForText
                            then findSplitPoint ar measurer remaining spaceForText else 0)
            in if numLe ar minLineHeight spaceForText \<and> splitIdx > 0 then
                 Continue (drop (nat splitIdx) remaining) False
                   (flushPage ar (pushPara \<lparr>text = take (nat splitIdx) remaining,
                                             fullText = fullTxt,
                                             isContinuation = \<not> isFirstFragment\<rparr> st))
               else if length (currentPageParas st) > 0 then
                 Continue remaining isFirstFragment (flushPage ar st)
               else
                 Break (flushPage ar (pushPara \<lparr>text = remaining, fullText = fullTxt,
                                                isContinuation = \<not> isFirstFragment\<rparr> st))))"

text \<open>
  The variant of the inner loop: twice the length of the text still to place, plus one
  while the current page is non-empty (a flush-and-retry iteration keeps the text and
  empties the page).
\<close>

definition loopVariant :: "jsstring \<Rightarrow> 'n pstate \<Rightarrow> nat" where
  "loopVariant remaining st =
     2 * length remaining + (if currentPageParas st = [] then 0 else 1)"

lemma placeStep_Continue_variant:
  assumes "placeStep ar measurer safeHeight spacingPx minLineHeight fullTxt remaining isFirst st
             = Continue r' f' st'"
      and "0 < length remaining"
  shows "loopVariant r' st' < loopVariant remaining st"
  using assms
  by (auto simp: placeStep_def Let_def loopVariant_def flushPage_def pushPara_def
           split: if_splits)

function placeParagraph ::
  "'n arith \<Rightarrow> (jsstring \<Rightarrow> 'n) \<Rightarrow> 'n \<Rightarrow> 'n \<Rightarrow> 'n \<Rightarrow> jsstring \<Rightarrow> jsstring \<Rightarrow> bool \<Rightarrow> 'n pstate
     \<Rightarrow> 'n pstate" where
  "placeParagraph ar measurer safeHeight spacingPx minLineHeight fullTxt remaining isFirstFragment st =
     (if length remaining > 0 then
        (case placeStep ar measurer safeHeight spacingPx minLineHeight fullTxt remaining
                isFirstFragment st of
           Break st' \<Rightarrow> st'
         | Continue remaining' isFirstFragment' st' \<Rightarrow>
             placeParagraph ar measurer safeHeight spacingPx minLineHeight fullTxt
               remaining' isFirstFragment' st')
      else st)"
  by pat_completeness auto
termination
  by (relation "measure (\<lambda>(ar, m, sh, sp, ml, ft, remaining, isFirst, st).
                   loopVariant remaining st)")
     (auto dest: placeStep_Continue_variant)

declare findSplitLoop.simps [simp del]
declare placeParagraph.simps [simp del]

text \<open>The same loop with an explicit bound on the number of iterations.\<close>

fun placeIter ::
  "'n arith \<Rightarrow> nat \<Rightarrow> (jsstring \<Rightarrow> 'n) \<Rightarrow> 'n \<Rightarrow> 'n \<Rightarrow> 'n \<Rightarrow> jsstring \<Rightarrow> jsstring \<Rightarrow> bool \<Rightarrow> 'n pstate
     \<Rightarrow> 'n pstate option" where
  "placeIter ar 0 measurer safeHeight spacingPx minLineHeight fullTxt remaining isFirstFragment st =
     (if length remaining > 0 then None else Some st)"
| "placeIter ar (Suc n) measurer safeHeight spacingPx minLineHeight fullTxt remaining
       isFirstFragment st =
     (if length remaining > 0 then
        (case placeStep ar measurer safeHeight spacingPx minLineHeight fullTxt remaining
                isFirstFragment st of
           Break st' \<Rightarrow> Some st'
         | Continue remaining' isFirstFragment' st' \<Rightarrow>
             placeIter ar n measurer safeHeight spacingPx minLineHeight fullTxt
               remaining' isFirstFragment' st')
      else Some st)"

text \<open>The outer \<open>for\<close> loop over the paragraphs of the chapter.\<close>

fun paginateLoop ::
  "'n arith \<Rightarrow> (jsstring \<Rightarrow> 'n) \<Rightarrow> 'n \<Rightarrow> 'n \<Rightarrow> 'n \<Rightarrow> jsstring list \<Rightarrow> 'n pstate \<Rightarrow> 'n pstate" where
  "paginateLoop ar measurer safeHeight spacingPx minLineHeight [] st = st"
| "paginateLoop ar measurer safeHeight spacingPx minLineHeight (p # ps) st =
     paginateLoop ar measurer safeHeight spacingPx minLineHeight ps
       (placeParagraph ar measurer safeHeight spacingPx minLineHeight p p True st)"

text \<open>
  \<open>paginateParagraphs\<close>. The two hidden measurer elements are the parameters
  \<open>measurer\<close> (body text; styled with the container width, font size and line height) and
  \<open>titleMeasurer\<close> (title; styled with the container width and the rounded title font
  size): each gives the \<open>offsetHeight\<close> of its element for a text. The optional
  \<open>chapterTitle\<close> is \<open>None\<close> when the argument is omitted; the empty string is falsy too.
  \<open>titleHeight\<close> is the height reserved for the title on the first page.
\<close>

definition titleHeight :: "'n arith \<Rightarrow> (jsstring \<Rightarrow> 'n) \<Rightarrow> 'n \<Rightarrow> jsstring option \<Rightarrow> 'n" where
  "titleHeight ar titleMeasurer fontSize chapterTitle =
     (case chapterTitle of
        None \<Rightarrow> numZero ar
      | Some t \<Rightarrow> if t = [] then numZero ar
                  else numAdd ar (titleMeasurer t) (numMul ar fontSize (numThreeHalves ar)))"

definition paginateParagraphs ::
  "'n arith \<Rightarrow> (jsstring \<Rightarrow> 'n) \<Rightarrow> (jsstring \<Rightarrow> 'n) \<Rightarrow> jsstring list \<Rightarrow> 'n \<Rightarrow> 'n \<Rightarrow> 'n \<Rightarrow> 'n \<Rightarrow> 'n
     \<Rightarrow> jsstring option \<Rightarrow> PageData list" where
  "paginateParagraphs ar measurer titleMeasurer allParagraphs availableHeight fontSize lineHeight
       paragraphSpacing containerWidth chapterTitle =
     (if length allParagraphs = 0 \<or> numLe ar availableHeight (numZero ar)
         \<or> numLe ar containerWidth (numZero ar) then
        [\<lparr>paragraphs = wrapParas allParagraphs, showTitle = True\<rparr>]
      else
        (let safeHeight = numSub ar availableHeight (numEight ar);
             spacingPx = numMul ar paragraphSpacing fontSize;
             minLineHeight = numMul ar fontSize lineHeight;
             st = paginateLoop ar measurer safeHeight spacingPx minLineHeight allParagraphs
                    \<lparr>pages = [], currentPageParas = [],
                     currentHeight = titleHeight ar titleMeasurer fontSize chapterTitle\<rparr>;
             st' = (if length (currentPageParas st) > 0 then flushPage ar st else st)
         in if length (pages st') > 0 then pages st'
            else [\<lparr>paragraphs = wrapParas allParagraphs, showTitle = True\<rparr>]))"

subsection \<open>Notions used to state the properties of the engine\<close>

text \<open>
  All fragments produced so far, in page order: those of the finished pages followed by
  those of the page being filled.
\<close>

definition allFrags :: "'n pstate \<Rightarrow> PageParagraph list" where
  "allFrags st = concat (map paragraphs (pages st)) @ currentPageParas st"

text \<open>
  \<open>isFragmentationOf p g\<close>: the fragment group \<open>g\<close> is a lossless split of the paragraph
  \<open>p\<close>. The display texts concatenate to \<open>p\<close>, every fragment records \<open>p\<close> as its full
  text, the first fragment is not a continuation and all later ones are.
\<close>

definition isFragmentationOf :: "jsstring \<Rightarrow> PageParagraph list \<Rightarrow> bool" where
  "isFragmentationOf p g \<longleftrightarrow>
     g \<noteq> [] \<and> concat (map text g) = p \<and> list_all (\<lambda>f. fullText f = p) g \<and>
     \<not> isContinuation (hd g) \<and> list_all isContinuation (tl g)"

text \<open>
  The loop invariant of \<open>placeParagraph\<close>: \<open>g\<close> are the fragments added for the text
  \<open>r\<close> still to place, the first of them flagged by \<open>isFirst\<close>.
\<close>

definition piecesOf :: "bool \<Rightarrow> jsstring \<Rightarrow> jsstring \<Rightarrow> PageParagraph list \<Rightarrow> bool" where
  "piecesOf isFirst fullTxt r g \<longleftrightarrow>
     concat (map text g) = r \<and> list_all (\<lambda>f. fullText f = fullTxt) g \<and>
     (r = [] \<longleftrightarrow> g = []) \<and> list_all (\<lambda>f. text f \<noteq> []) g \<and>
     (case g of [] \<Rightarrow> True | f # fs \<Rightarrow> isContinuation f = (\<not> isFirst) \<and> list_all isContinuation fs)"

definition pagesOK :: "'n pstate \<Rightarrow> bool" where
  "pagesOK st \<longleftrightarrow> list_all (\<lambda>pg. paragraphs pg \<noteq> []) (pages st)"

text \<open>
  The paragraphs that appear on the returned pages: all of them when the engine answers
  with its single fallback page (height or width at most zero, or nothing but empty
  paragraphs), otherwise the non-empty ones.
\<close>

definition placedParagraphs :: "'n arith \<Rightarrow> jsstring list \<Rightarrow> 'n \<Rightarrow> 'n \<Rightarrow> jsstring list" where
  "placedParagraphs ar ps availableHeight containerWidth =
     (if numLe ar availableHeight (numZero ar) \<or> numLe ar containerWidth (numZero ar)
         \<or> list_all (\<lambda>p. p = []) ps then ps
      else filter (\<lambda>p. p \<noteq> []) ps)"

text \<open>
  Two measurement functions agree on a paragraph when they give the same height to every
  contiguous piece of it; these are the only texts the engine ever measures.
\<close>

definition agreeOn :: "(jsstring \<Rightarrow> 'n) \<Rightarrow> (jsstring \<Rightarrow> 'n) \<Rightarrow> jsstring \<Rightarrow> bool" where
  "agreeOn m1 m2 p \<longleftrightarrow> (\<forall>i j. m1 (take i (drop j p)) = m2 (take i (drop j p)))"

definition agreeOnTitle ::
  "(jsstring \<Rightarrow> 'n) \<Rightarrow> (jsstring \<Rightarrow> 'n) \<Rightarrow> jsstring option \<Rightarrow> bool" where
  "agreeOnTitle tm1 tm2 chapterTitle =
     (case chapterTitle of None \<Rightarrow> True | Some t \<Rightarrow> tm1 t = tm2 t)"

text \<open>
  The height the code has for text on the first page while that page is still empty: the
  safe height less the title height, less a gap of zero, computed as the code does.
\<close>

definition firstTextBudget ::
  "'n arith \<Rightarrow> (jsstring \<Rightarrow> 'n) \<Rightarrow> 'n \<Rightarrow> 'n \<Rightarrow> jsstring option \<Rightarrow> 'n" where
  "firstTextBudget ar titleMeasurer availableHeight fontSize chapterTitle =
     numSub ar
       (numSub ar (numSub ar availableHeight (numEight ar))
                  (titleHeight ar titleMeasurer fontSize chapterTitle))
       (numZero ar)"

text \<open>
  A synthetic measurement function for concrete runs: \<open>charsPerLine\<close> characters fill a
  line of height \<open>lineH\<close>. \<open>cappedMeasure\<close> differs from it only on texts longer than
  \<open>cap\<close> characters.
\<close>

definition fixedMeasure :: "nat \<Rightarrow> real \<Rightarrow> jsstring \<Rightarrow> real" where
  "fixedMeasure charsPerLine lineH s =
     lineH * real ((length s + charsPerLine - 1) div charsPerLine)"

definition cappedMeasure :: "nat \<Rightarrow> nat \<Rightarrow> real \<Rightarrow> jsstring \<Rightarrow> real" where
  "cappedMeasure cap charsPerLine lineH s =
     (if length s \<le> cap then fixedMeasure charsPerLine lineH s else 0)"

text \<open>Two states for concrete runs: an empty first page, and a page that holds a fragment.\<close>

definition emptyPage :: "real pstate" where
  "emptyPage = \<lparr>pages = [], currentPageParas = [], currentHeight = 0\<rparr>"

definition fullPage :: "real pstate" where
  "fullPage = \<lparr>pages = [],
               currentPageParas = [\<lparr>text = js ''abcd'', fullText = js ''abcd'',
                                    isContinuation = False\<rparr>],
               currentHeight = 20\<rparr>"

subsection \<open>Properties of the pagination engine\<close>

lemma placeStep_Break_frags:
  assumes "placeStep ar m sh sp ml full r isFirst st = Break st'"
  shows "allFrags st' = allFrags st @ [\<lparr>text = r, fullText = full, isContinuation = \<not> isFirst\<rparr>]"
  using assms
  by (auto simp: placeStep_def Let_def allFrags_def flushPage_def pushPara_def split: if_splits)

lemma placeStep_Continue_frags:
  assumes "placeStep ar m sh sp ml full r isFirst st = Continue r' f' st'"
  shows "(\<exists>k. 0 < k \<and> r' = drop k r \<and> f' = False \<and>
            allFrags st' = allFrags st @ [\<lparr>text = take k r, fullText = full, isContinuation = \<not> isFirst\<rparr>])
         \<or> (r' = r \<and> f' = isFirst \<and> allFrags st' = allFrags st)"
proof -
  define gap where "gap = (if length (currentPageParas st) > 0 then sp else numZero ar)"
  define k where "k = nat (findSplitPoint ar m r (numSub ar (numSub ar sh (currentHeight st)) gap))"
  have "(0 < k \<and> r' = drop k r \<and> f' = False \<and>
            allFrags st' = allFrags st @ [\<lparr>text = take k r, fullText = full, isContinuation = \<not> isFirst\<rparr>])
         \<or> (r' = r \<and> f' = isFirst \<and> allFrags st' = allFrags st)"
    using assms unfolding k_def gap_def
    by (auto simp: placeStep_def Let_def allFrags_def flushPage_def pushPara_def split: if_splits)
  then show ?thesis by blast
qed

lemma placeParagraph_frags:
  "\<exists>g. allFrags (placeParagraph ar m sh sp ml full r isFirst st) = allFrags st @ g \<and> piecesOf isFirst full r g"
proof (induction ar m sh sp ml full r isFirst st rule: placeParagraph.induct)
  case (1 ar m sh sp ml full r isFirst st)
  show ?case
  proof (cases "0 < length r")
    case False
    then show ?thesis by (simp add: piecesOf_def placeParagraph.simps)
  next
    case True
    show ?thesis
    proof (cases "placeStep ar m sh sp ml full r isFirst st")
      case (Break st')
      with True placeStep_Break_frags[OF Break] show ?thesis
        by (simp add: piecesOf_def placeParagraph.simps)
    next
      case (Continue r' f' st')
      from "1.IH"[OF True Continue] obtain g where
        g: "allFrags (placeParagraph ar m sh sp ml full r' f' st') = allFrags st' @ g" "piecesOf f' full r' g"
        by blast
      from placeStep_Continue_frags[OF Continue] show ?thesis
      proof
        assume "\<exists>k. 0 < k \<and> r' = drop k r \<and> f' = False \<and>
            allFrags st' = allFrags st @ [\<lparr>text = take k r, fullText = full, isContinuation = \<not> isFirst\<rparr>]"
        then obtain k where k: "0 < k" "r' = drop k r" "f' = False"
            "allFrags st' = allFrags st @ [\<lparr>text = take k r, fullText = full, isContinuation = \<not> isFirst\<rparr>]"
          by blast
        have "piecesOf isFirst full r (\<lparr>text = take k r, fullText = full, isContinuation = \<not> isFirst\<rparr> # g)"
          using g(2) k(1,2,3) True
          by (auto simp: piecesOf_def split: list.splits)
        with g(1) k(4) True Continue show ?thesis by (simp add: placeParagraph.simps[of ar m sh sp ml full r])
      next
        assume "r' = r \<and> f' = isFirst \<and> allFrags st' = allFrags st"
        with g True Continue show ?thesis by (simp add: placeParagraph.simps[of ar m sh sp ml full r])
      qed
    qed
  qed
qed

lemma placeStep_Break_pagesOK:
  assumes "placeStep ar m sh sp ml full r isFirst st = Break st'" "pagesOK st"
  shows "pagesOK st'"
  using assms
  by (auto simp: placeStep_def Let_def pagesOK_def flushPage_def pushPara_def split: if_splits)

lemma placeStep_Continue_pagesOK:
  assumes "placeStep ar m sh sp ml full r isFirst st = Continue r' f' st'" "pagesOK st"
  shows "pagesOK st'"
  using assms
  by (auto simp: placeStep_def Let_def pagesOK_def flushPage_def pushPara_def split: if_splits)

lemma placeParagraph_pagesOK:
  "pagesOK st \<Longrightarrow> pagesOK (placeParagraph ar m sh sp ml full r isFirst st)"
proof (induction ar m sh sp ml full r isFirst st rule: placeParagraph.induct)
  case (1 ar m sh sp ml full r isFirst st)
  show ?case
  proof (cases "0 < length r")
    case False
    with "1.prems" show ?thesis by (simp add: placeParagraph.simps)
  next
    case True
    show ?thesis
    proof (cases "placeStep ar m sh sp ml full r isFirst st")
      case (Break st')
      with True "1.prems" placeStep_Break_pagesOK[OF Break] show ?thesis
        by (simp add: placeParagraph.simps)
    next
      case (Continue r' f' st')
      from "1.IH"[OF True Continue placeStep_Continue_pagesOK[OF Continue "1.prems"]]
      show ?thesis using True Continue by (simp add: placeParagraph.simps[of ar m sh sp ml full r])
    qed
  qed
qed

lemma paginateLoop_pagesOK:
  "pagesOK st \<Longrightarrow> pagesOK (paginateLoop ar m sh sp ml ps st)"
  by (induction ps arbitrary: st) (simp_all add: placeParagraph_pagesOK)

lemma placeParagraph_empty [simp]: "placeParagraph ar m sh sp ml full [] isFirst st = st"
  by (simp add: placeParagraph.simps)

lemma paginateLoop_filter:
  "paginateLoop ar m sh sp ml (filter (\<lambda>p. p \<noteq> []) ps) st = paginateLoop ar m sh sp ml ps st"
  by (induction ps arbitrary: st) simp_all

lemma piecesOf_first:
  assumes "piecesOf True p p g"
  shows "if p = [] then g = [] else isFragmentationOf p g"
  using assms by (auto simp: piecesOf_def isFragmentationOf_def split: list.splits)

lemma paginateLoop_frags:
  "\<exists>gs. allFrags (paginateLoop ar m sh sp ml ps st) = allFrags st @ concat gs \<and>
        list_all2 isFragmentationOf (filter (\<lambda>p. p \<noteq> []) ps) gs \<and>
        list_all (list_all (\<lambda>f. text f \<noteq> [])) gs"
proof (induction ps arbitrary: st)
  case Nil
  show ?case by simp
next
  case (Cons p ps)
  obtain g where g: "allFrags (placeParagraph ar m sh sp ml p p True st) = allFrags st @ g"
      "piecesOf True p p g"
    using placeParagraph_frags[of ar m sh sp ml p p True st] by blast
  obtain gs where gs:
      "allFrags (paginateLoop ar m sh sp ml ps (placeParagraph ar m sh sp ml p p True st))
         = allFrags (placeParagraph ar m sh sp ml p p True st) @ concat gs"
      "list_all2 isFragmentationOf (filter (\<lambda>p. p \<noteq> []) ps) gs"
      "list_all (list_all (\<lambda>f. text f \<noteq> [])) gs"
    using Cons.IH by blast
  show ?case
  proof (cases "p = []")
    case True
    with piecesOf_first[OF g(2)] have "g = []" by simp
    with True g gs show ?thesis by auto
  next
    case False
    with piecesOf_first[OF g(2)] have "isFragmentationOf p g" by simp
    moreover have "list_all (\<lambda>f. text f \<noteq> []) g" using g(2) by (simp add: piecesOf_def)
    ultimately show ?thesis using False g(1) gs
      by (intro exI[of _ "g # gs"]) simp
  qed
qed

lemma wrapParas_fragmentation:
  "list_all2 isFragmentationOf ps (map (\<lambda>f. [f]) (wrapParas ps))"
  by (induction ps) (simp_all add: wrapParas_def isFragmentationOf_def)

lemma concat_singletons: "concat (map (\<lambda>f. [f]) xs) = xs"
  by (induction xs) simp_all

lemma allFrags_flush:
  "concat (map paragraphs (pages (if length (currentPageParas st) > 0 then flushPage ar st else st)))
     = allFrags st"
  by (simp add: allFrags_def flushPage_def)

lemma pages_flush_nonempty:
  "pagesOK st \<Longrightarrow>
   (length (pages (if length (currentPageParas st) > 0 then flushPage ar st else st)) > 0)
     = (allFrags st \<noteq> [])"
  by (cases "pages st") (auto simp: allFrags_def flushPage_def pagesOK_def)

lemma list_all2_fragmentation_concat:
  "list_all2 isFragmentationOf qs gs \<Longrightarrow> (concat gs = []) = (qs = [])"
  by (cases qs; cases gs) (auto simp: isFragmentationOf_def)

lemma filter_nonempty_Nil: "(filter (\<lambda>p. p \<noteq> []) ps = []) = list_all (\<lambda>p. p = []) ps"
  by (induction ps) auto

lemma paginate_not_Nil:
  "paginateParagraphs ar measurer titleMeasurer allParagraphs availableHeight fontSize
               lineHeight paragraphSpacing containerWidth chapterTitle \<noteq> []"
  by (auto simp: paginateParagraphs_def Let_def)

lemma pagesOK_flush:
  "pagesOK st \<Longrightarrow> pagesOK (if length (currentPageParas st) > 0 then flushPage ar st else st)"
  by (simp add: pagesOK_def flushPage_def)

lemma placeIter_enough:
  "loopVariant remaining st \<le> n \<Longrightarrow>
   placeIter ar n measurer safeHeight spacingPx minLineHeight fullTxt remaining isFirst st
     = Some (placeParagraph ar measurer safeHeight spacingPx minLineHeight fullTxt remaining isFirst st)"
proof (induction n arbitrary: remaining isFirst st)
  case 0
  then show ?case by (simp add: loopVariant_def placeParagraph.simps)
next
  case (Suc n)
  show ?case
  proof (cases "0 < length remaining")
    case False
    then show ?thesis by (simp add: placeParagraph.simps)
  next
    case True
    show ?thesis
    proof (cases "placeStep ar measurer safeHeight spacingPx minLineHeight fullTxt remaining isFirst st")
      case (Break st')
      with True show ?thesis by (simp add: placeParagraph.simps)
    next
      case (Continue r' f' st')
      from placeStep_Continue_variant[OF Continue True] Suc.prems
      have "loopVariant r' st' \<le> n" by simp
      from Suc.IH[OF this] True Continue show ?thesis
        by (simp add: placeParagraph.simps[of _ _ _ _ _ _ remaining])
    qed
  qed
qed

lemma agreeOn_self: "agreeOn m1 m2 p \<Longrightarrow> m1 p = m2 p"
  unfolding agreeOn_def by (metis drop0 take_all order_refl)

lemma agreeOn_take: "agreeOn m1 m2 p \<Longrightarrow> m1 (take k p) = m2 (take k p)"
  unfolding agreeOn_def by (metis drop0)

lemma agreeOn_drop: "agreeOn m1 m2 p \<Longrightarrow> agreeOn m1 m2 (drop k p)"
  unfolding agreeOn_def by simp

lemma findSplitLoop_agree:
  "agreeOn m1 m2 t \<Longrightarrow> findSplitLoop ar m1 t mh lo hi best = findSplitLoop ar m2 t mh lo hi best"
proof (induction ar m1 t mh lo hi best rule: findSplitLoop.induct)
  case (1 ar m1 t mh lo hi best)
  show ?case
  proof (cases "lo \<le> hi")
    case False
    then show ?thesis by (simp add: findSplitLoop.simps)
  next
    case True
    have eq: "m1 (take (nat ((lo + hi) div 2)) t) = m2 (take (nat ((lo + hi) div 2)) t)"
      by (rule agreeOn_take[OF "1.prems"])
    show ?thesis
    proof (cases "numLe ar (m1 (take (nat ((lo + hi) div 2)) t)) mh")
      case le: True
      from "1.IH"(1)[OF True refl le "1.prems"] True le eq show ?thesis
        by (simp add: findSplitLoop.simps[of _ _ t mh lo hi best] Let_def)
    next
      case gt: False
      from "1.IH"(2)[OF True refl gt "1.prems"] True gt eq show ?thesis
        by (simp add: findSplitLoop.simps[of _ _ t mh lo hi best] Let_def)
    qed
  qed
qed

lemma placeStep_agree:
  "agreeOn m1 m2 r \<Longrightarrow>
   placeStep ar m1 sh sp ml full r isFirst st = placeStep ar m2 sh sp ml full r isFirst st"
proof -
  assume a: "agreeOn m1 m2 r"
  have whole: "m1 r = m2 r" by (rule agreeOn_self[OF a])
  have split: "\<And>mh. findSplitPoint ar m1 r mh = findSplitPoint ar m2 r mh"
    unfolding findSplitPoint_def by (rule findSplitLoop_agree[OF a])
  show ?thesis unfolding placeStep_def whole split ..
qed

lemma placeStep_Continue_drop:
  assumes "placeStep ar m sh sp ml full r isFirst st = Continue r' f' st'"
  shows "\<exists>k. r' = drop k r"
  using placeStep_Continue_frags[OF assms] by (metis drop0)

lemma placeParagraph_agree:
  "agreeOn m1 m2 r \<Longrightarrow>
   placeParagraph ar m1 sh sp ml full r isFirst st = placeParagraph ar m2 sh sp ml full r isFirst st"
proof (induction ar m1 sh sp ml full r isFirst st rule: placeParagraph.induct)
  case (1 ar m1 sh sp ml full r isFirst st)
  show ?case
  proof (cases "0 < length r")
    case False
    then show ?thesis by (simp add: placeParagraph.simps)
  next
    case True
    note eq = placeStep_agree[OF "1.prems", of ar sh sp ml full isFirst st]
    show ?thesis
    proof (cases "placeStep ar m1 sh sp ml full r isFirst st")
      case (Break st')
      then have "placeStep ar m2 sh sp ml full r isFirst st = Break st'" using eq by simp
      with Break True show ?thesis by (simp add: placeParagraph.simps[of _ _ _ _ _ _ r])
    next
      case (Continue r' f' st')
      then have c2: "placeStep ar m2 sh sp ml full r isFirst st = Continue r' f' st'"
        using eq by simp
      from placeStep_Continue_drop[OF Continue] "1.prems" have "agreeOn m1 m2 r'"
        by (auto simp: agreeOn_drop)
      from "1.IH"[OF True Continue this] True Continue c2 show ?thesis
        by (simp add: placeParagraph.simps[of _ _ _ _ _ _ r])
    qed
  qed
qed

lemma paginateLoop_agree:
  "list_all (agreeOn m1 m2) ps \<Longrightarrow>
   paginateLoop ar m1 sh sp ml ps st = paginateLoop ar m2 sh sp ml ps st"
proof (induction ps arbitrary: st)
  case Nil
  show ?case by simp
next
  case (Cons p ps)
  then have "placeParagraph ar m1 sh sp ml p p True st = placeParagraph ar m2 sh sp ml p p True st"
    by (simp add: placeParagraph_agree)
  moreover have "\<And>st. paginateLoop ar m1 sh sp ml ps st = paginateLoop ar m2 sh sp ml ps st"
    using Cons by simp
  ultimately show ?case by simp
qed

lemma placeStep_Continue_cases:
  assumes "placeStep ar m sh sp ml full r isFirst st = Continue r' f' st'" and "r \<noteq> []"
  shows "(\<exists>k. 0 < k \<and> take k r \<noteq> [] \<and> r' = drop k r \<and>
            allFrags st' = allFrags st @ [\<lparr>text = take k r, fullText = full, isContinuation = \<not> isFirst\<rparr>])
         \<or> (currentPageParas st \<noteq> [] \<and> currentPageParas st' = [] \<and> r' = r \<and>
             allFrags st' = allFrags st)"
proof -
  define gap where "gap = (if length (currentPageParas st) > 0 then sp else numZero ar)"
  define k where "k = nat (findSplitPoint ar m r (numSub ar (numSub ar sh (currentHeight st)) gap))"
  have "(0 < k \<and> take k r \<noteq> [] \<and> r' = drop k r \<and>
            allFrags st' = allFrags st @ [\<lparr>text = take k r, fullText = full, isContinuation = \<not> isFirst\<rparr>])
         \<or> (currentPageParas st \<noteq> [] \<and> currentPageParas st' = [] \<and> r' = r \<and>
             allFrags st' = allFrags st)"
    using assms unfolding k_def gap_def
    by (auto simp: placeStep_def Let_def allFrags_def flushPage_def pushPara_def split: if_splits)
  then show ?thesis by blast
qed

lemma oversize_single:
  assumes "p \<noteq> []"
    and "\<not> numLe ar availableHeight (numZero ar)" "\<not> numLe ar containerWidth (numZero ar)"
    and "\<not> numLe ar (numMul ar fontSize lineHeight)
              (firstTextBudget ar titleMeasurer availableHeight fontSize chapterTitle)
         \<or> findSplitPoint ar measurer p
              (firstTextBudget ar titleMeasurer availableHeight fontSize chapterTitle) = 0"
  shows "paginateParagraphs ar measurer titleMeasurer [p] availableHeight fontSize lineHeight
           paragraphSpacing containerWidth chapterTitle
         = [\<lparr>paragraphs = [\<lparr>text = p, fullText = p, isContinuation = False\<rparr>], showTitle = True\<rparr>]"
proof -
  define st0 :: "'a pstate" where "st0 = \<lparr>pages = [], currentPageParas = [],
      currentHeight = titleHeight ar titleMeasurer fontSize chapterTitle\<rparr>"
  have "\<exists>st'. placeStep ar measurer (numSub ar availableHeight (numEight ar))
          (numMul ar paragraphSpacing fontSize) (numMul ar fontSize lineHeight) p p True st0
            = Break st' \<and>
          pages (if length (currentPageParas st') > 0 then flushPage ar st' else st')
            = [\<lparr>paragraphs = [\<lparr>text = p, fullText = p, isContinuation = False\<rparr>], showTitle = True\<rparr>]"
    using assms(4)
    by (auto simp: placeStep_def Let_def st0_def flushPage_def pushPara_def firstTextBudget_def)
  then obtain st' where st': "placeStep ar measurer (numSub ar availableHeight (numEight ar))
          (numMul ar paragraphSpacing fontSize) (numMul ar fontSize lineHeight) p p True st0
            = Break st'"
     "pages (if length (currentPageParas st') > 0 then flushPage ar st' else st')
            = [\<lparr>paragraphs = [\<lparr>text = p, fullText = p, isContinuation = False\<rparr>], showTitle = True\<rparr>]"
    by blast
  define fin where "fin = (if length (currentPageParas st') > 0 then flushPage ar st' else st')"
  have pp: "placeParagraph ar measurer (numSub ar availableHeight (numEight ar))
          (numMul ar paragraphSpacing fontSize) (numMul ar fontSize lineHeight) p p True st0 = st'"
    using assms(1) st'(1) by (simp add: placeParagraph.simps[of _ _ _ _ _ _ p])
  have "paginateParagraphs ar measurer titleMeasurer [p] availableHeight fontSize lineHeight
           paragraphSpacing containerWidth chapterTitle
        = (if length (pages fin) > 0 then pages fin
           else [\<lparr>paragraphs = wrapParas [p], showTitle = True\<rparr>])"
    using assms(2,3) pp unfolding fin_def st0_def
    by (simp add: paginateParagraphs_def Let_def)
  moreover have "pages fin = [\<lparr>paragraphs = [\<lparr>text = p, fullText = p, isContinuation = False\<rparr>], showTitle = True\<rparr>]"
    using st'(2) unfolding fin_def by simp
  ultimately show ?thesis by simp
qed

lemma paginate_all_empty:
  assumes "list_all (\<lambda>p. p = []) allParagraphs"
  shows "paginateParagraphs ar measurer titleMeasurer allParagraphs availableHeight fontSize
           lineHeight paragraphSpacing containerWidth chapterTitle
         = [\<lparr>paragraphs = wrapParas allParagraphs, showTitle = True\<rparr>]"
proof -
  have "filter (\<lambda>p. p \<noteq> []) allParagraphs = []"
    using assms by (simp add: filter_nonempty_Nil)
  then have "\<And>sh sp ml st. paginateLoop ar measurer sh sp ml allParagraphs st = (st :: 'a pstate)"
    using paginateLoop_filter[of ar measurer _ _ _ allParagraphs] by simp
  then show ?thesis by (simp add: paginateParagraphs_def Let_def)
qed

text \<open>
  Claim C1 (lossless pagination). The fragments on the returned pages, read in page
  order, fall into consecutive groups, one per placed paragraph and in paragraph order;
  the display texts of a group concatenate to exactly the paragraph's text, each fragment
  of the group carries that text as \<open>fullText\<close>, the first fragment of the group has
  \<open>isContinuation = False\<close> and every later one has \<open>isContinuation = True\<close>. This holds
  for every paragraph, split across pages or not, and whatever the arithmetic rounds to.
\<close>

theorem pagination_lossless:
  "\<exists>gs. concat gs = concat (map paragraphs
            (paginateParagraphs ar measurer titleMeasurer allParagraphs availableHeight fontSize
               lineHeight paragraphSpacing containerWidth chapterTitle))
       \<and> list_all2 isFragmentationOf
            (placedParagraphs ar allParagraphs availableHeight containerWidth) gs"
proof (cases "length allParagraphs = 0 \<or> numLe ar availableHeight (numZero ar)
                \<or> numLe ar containerWidth (numZero ar)")
  case True
  then have "placedParagraphs ar allParagraphs availableHeight containerWidth = allParagraphs"
    by (auto simp: placedParagraphs_def)
  with True wrapParas_fragmentation[of allParagraphs] show ?thesis
    by (intro exI[of _ "map (\<lambda>f. [f]) (wrapParas allParagraphs)"])
       (simp add: paginateParagraphs_def concat_singletons)
next
  case False
  define st0 :: "'a pstate" where "st0 = \<lparr>pages = [], currentPageParas = [],
      currentHeight = titleHeight ar titleMeasurer fontSize chapterTitle\<rparr>"
  define st where "st = paginateLoop ar measurer (numSub ar availableHeight (numEight ar))
      (numMul ar paragraphSpacing fontSize) (numMul ar fontSize lineHeight) allParagraphs st0"
  define st' where "st' = (if length (currentPageParas st) > 0 then flushPage ar st else st)"
  have res: "paginateParagraphs ar measurer titleMeasurer allParagraphs availableHeight fontSize
               lineHeight paragraphSpacing containerWidth chapterTitle
             = (if length (pages st') > 0 then pages st'
                else [\<lparr>paragraphs = wrapParas allParagraphs, showTitle = True\<rparr>])"
    using False by (simp add: paginateParagraphs_def Let_def st'_def st_def st0_def)
  have ok0: "pagesOK st0" and fr0: "allFrags st0 = []"
    by (simp_all add: st0_def pagesOK_def allFrags_def)
  have ok: "pagesOK st" unfolding st_def by (rule paginateLoop_pagesOK[OF ok0])
  obtain gs where gs: "allFrags st = concat gs"
      "list_all2 isFragmentationOf (filter (\<lambda>p. p \<noteq> []) allParagraphs) gs"
    using paginateLoop_frags[of ar measurer "numSub ar availableHeight (numEight ar)"
        "numMul ar paragraphSpacing fontSize" "numMul ar fontSize lineHeight" allParagraphs st0] fr0
    unfolding st_def by auto
  have fl: "concat (map paragraphs (pages st')) = allFrags st"
    unfolding st'_def by (rule allFrags_flush)
  have ne: "(length (pages st') > 0) = (allFrags st \<noteq> [])"
    unfolding st'_def by (rule pages_flush_nonempty[OF ok])
  show ?thesis
  proof (cases "list_all (\<lambda>p. p = []) allParagraphs")
    case True
    then have "allFrags st = []"
      using gs list_all2_fragmentation_concat[OF gs(2)] by (simp add: filter_nonempty_Nil)
    with ne res have "paginateParagraphs ar measurer titleMeasurer allParagraphs availableHeight fontSize
               lineHeight paragraphSpacing containerWidth chapterTitle
             = [\<lparr>paragraphs = wrapParas allParagraphs, showTitle = True\<rparr>]" by simp
    moreover have "placedParagraphs ar allParagraphs availableHeight containerWidth = allParagraphs"
      using True by (simp add: placedParagraphs_def)
    ultimately show ?thesis using wrapParas_fragmentation[of allParagraphs]
      by (intro exI[of _ "map (\<lambda>f. [f]) (wrapParas allParagraphs)"])
         (simp add: concat_singletons)
  next
    case nonempty: False
    then have "allFrags st \<noteq> []"
      using gs list_all2_fragmentation_concat[OF gs(2)] by (simp add: filter_nonempty_Nil)
    with ne res have "paginateParagraphs ar measurer titleMeasurer allParagraphs availableHeight fontSize
               lineHeight paragraphSpacing containerWidth chapterTitle = pages st'" by simp
    moreover have "placedParagraphs ar allParagraphs availableHeight containerWidth
        = filter (\<lambda>p. p \<noteq> []) allParagraphs"
      using nonempty False by (simp add: placedParagraphs_def)
    ultimately show ?thesis using gs fl by (intro exI[of _ gs]) simp
  qed
qed

text \<open>
  A concrete run of C1: ten characters at two per line do not fit three lines, so the
  first paragraph is split after six characters; the empty paragraph leaves no fragment.
\<close>

theorem pagination_lossless_witness:
  "\<exists>gs. concat gs =
          [\<lparr>text = js ''abcdef'', fullText = js ''abcdefghij'', isContinuation = False\<rparr>,
           \<lparr>text = js ''ghij'', fullText = js ''abcdefghij'', isContinuation = True\<rparr>,
           \<lparr>text = js ''klm'', fullText = js ''klm'', isContinuation = False\<rparr>]
      \<and> list_all2 isFragmentationOf [js ''abcdefghij'', js ''klm''] gs"
proof -
  have run: "paginateParagraphs realArith (fixedMeasure 2 10) (fixedMeasure 2 14)
               [js ''abcdefghij'', js '''', js ''klm''] 38 10 1 1 100 None
             = [\<lparr>paragraphs = [\<lparr>text = js ''abcdef'', fullText = js ''abcdefghij'',
                                isContinuation = False\<rparr>], showTitle = True\<rparr>,
                \<lparr>paragraphs = [\<lparr>text = js ''ghij'', fullText = js ''abcdefghij'',
                                isContinuation = True\<rparr>], showTitle = False\<rparr>,
                \<lparr>paragraphs = [\<lparr>text = js ''klm'', fullText = js ''klm'',
                                isContinuation = False\<rparr>], showTitle = False\<rparr>]"
    by code_simp
  have placed: "placedParagraphs realArith [js ''abcdefghij'', js '''', js ''klm''] 38 100
                = [js ''abcdefghij'', js ''klm'']"
    by (simp add: placedParagraphs_def realArith_def js_def)
  show ?thesis
    using pagination_lossless[of realArith "fixedMeasure 2 10" "fixedMeasure 2 14"
        "[js ''abcdefghij'', js '''', js ''klm'']" 38 10 1 1 100 None]
    unfolding run placed by simp
qed

text \<open>
  Claim C10, as amended. The engine always returns at least one page. When neither
  height nor width is at most zero and at least one paragraph is non-empty, every
  returned page holds at least one fragment, every fragment has a non-empty display text,
  and the empty paragraphs contribute nothing: the result is the one obtained from the
  list without them. When every paragraph is the empty string the engine returns its
  single fallback page, which wraps each paragraph unchanged and shows the title.
\<close>

theorem paginate_pages_nonempty:
  "paginateParagraphs ar measurer titleMeasurer allParagraphs availableHeight fontSize
       lineHeight paragraphSpacing containerWidth chapterTitle \<noteq> [] \<and>
   (\<not> numLe ar availableHeight (numZero ar) \<and> \<not> numLe ar containerWidth (numZero ar) \<and>
    \<not> list_all (\<lambda>p. p = []) allParagraphs \<longrightarrow>
      list_all (\<lambda>pg. paragraphs pg \<noteq> [] \<and> list_all (\<lambda>f. text f \<noteq> []) (paragraphs pg))
        (paginateParagraphs ar measurer titleMeasurer allParagraphs availableHeight fontSize
           lineHeight paragraphSpacing containerWidth chapterTitle) \<and>
      paginateParagraphs ar measurer titleMeasurer allParagraphs availableHeight fontSize
           lineHeight paragraphSpacing containerWidth chapterTitle
        = paginateParagraphs ar measurer titleMeasurer (filter (\<lambda>p. p \<noteq> []) allParagraphs)
            availableHeight fontSize lineHeight paragraphSpacing containerWidth chapterTitle) \<and>
   (list_all (\<lambda>p. p = []) allParagraphs \<longrightarrow>
      paginateParagraphs ar measurer titleMeasurer allParagraphs availableHeight fontSize
           lineHeight paragraphSpacing containerWidth chapterTitle
        = [\<lparr>paragraphs = wrapParas allParagraphs, showTitle = True\<rparr>])"
proof (intro conjI impI)
  show "paginateParagraphs ar measurer titleMeasurer allParagraphs availableHeight fontSize
       lineHeight paragraphSpacing containerWidth chapterTitle \<noteq> []"
    by (rule paginate_not_Nil)
next
  assume "list_all (\<lambda>p. p = []) allParagraphs"
  then show "paginateParagraphs ar measurer titleMeasurer allParagraphs availableHeight fontSize
           lineHeight paragraphSpacing containerWidth chapterTitle
        = [\<lparr>paragraphs = wrapParas allParagraphs, showTitle = True\<rparr>]"
    by (rule paginate_all_empty)
next
  assume H: "\<not> numLe ar availableHeight (numZero ar) \<and> \<not> numLe ar containerWidth (numZero ar) \<and>
    \<not> list_all (\<lambda>p. p = []) allParagraphs"
  then have ne: "allParagraphs \<noteq> []" and fne: "filter (\<lambda>p. p \<noteq> []) allParagraphs \<noteq> []"
    by (auto simp: filter_nonempty_Nil)
  define st0 :: "'a pstate" where "st0 = \<lparr>pages = [], currentPageParas = [],
      currentHeight = titleHeight ar titleMeasurer fontSize chapterTitle\<rparr>"
  define st where "st = paginateLoop ar measurer (numSub ar availableHeight (numEight ar))
      (numMul ar paragraphSpacing fontSize) (numMul ar fontSize lineHeight) allParagraphs st0"
  define st' where "st' = (if length (currentPageParas st) > 0 then flushPage ar st else st)"
  have ok0: "pagesOK st0" and fr0: "allFrags st0 = []"
    by (simp_all add: st0_def pagesOK_def allFrags_def)
  have ok: "pagesOK st" unfolding st_def by (rule paginateLoop_pagesOK[OF ok0])
  have ok': "pagesOK st'" unfolding st'_def by (rule pagesOK_flush[OF ok])
  obtain gs where gs: "allFrags st = concat gs"
      "list_all2 isFragmentationOf (filter (\<lambda>p. p \<noteq> []) allParagraphs) gs"
      "list_all (list_all (\<lambda>f. text f \<noteq> [])) gs"
    using paginateLoop_frags[of ar measurer "numSub ar availableHeight (numEight ar)"
        "numMul ar paragraphSpacing fontSize" "numMul ar fontSize lineHeight" allParagraphs st0] fr0
    unfolding st_def by auto
  have fl: "concat (map paragraphs (pages st')) = allFrags st"
    unfolding st'_def by (rule allFrags_flush)
  have "allFrags st \<noteq> []"
    using gs(1) list_all2_fragmentation_concat[OF gs(2)] fne by simp
  then have pne: "length (pages st') > 0"
    using pages_flush_nonempty[OF ok] by (simp add: st'_def)
  have "paginateParagraphs ar measurer titleMeasurer allParagraphs availableHeight fontSize
               lineHeight paragraphSpacing containerWidth chapterTitle
          = (if length (pages st') > 0 then pages st'
             else [\<lparr>paragraphs = wrapParas allParagraphs, showTitle = True\<rparr>])"
    using ne H by (simp add: paginateParagraphs_def Let_def st'_def st_def st0_def)
  with pne have res: "paginateParagraphs ar measurer titleMeasurer allParagraphs availableHeight fontSize
               lineHeight paragraphSpacing containerWidth chapterTitle = pages st'"
    by simp
  have texts: "list_all (\<lambda>f. text f \<noteq> []) (concat (map paragraphs (pages st')))"
    using gs(1,3) fl by (simp add: list_all_iff)
  have "list_all (\<lambda>pg. paragraphs pg \<noteq> [] \<and> list_all (\<lambda>f. text f \<noteq> []) (paragraphs pg)) (pages st')"
    using ok' texts by (auto simp: pagesOK_def list_all_iff)
  then show "list_all (\<lambda>pg. paragraphs pg \<noteq> [] \<and> list_all (\<lambda>f. text f \<noteq> []) (paragraphs pg))
        (paginateParagraphs ar measurer titleMeasurer allParagraphs availableHeight fontSize
           lineHeight paragraphSpacing containerWidth chapterTitle)"
    by (simp add: res)
  have "paginateParagraphs ar measurer titleMeasurer (filter (\<lambda>p. p \<noteq> []) allParagraphs)
            availableHeight fontSize lineHeight paragraphSpacing containerWidth chapterTitle
          = (if length (pages st') > 0 then pages st'
             else [\<lparr>paragraphs = wrapParas (filter (\<lambda>p. p \<noteq> []) allParagraphs), showTitle = True\<rparr>])"
    using fne H
    by (simp add: paginateParagraphs_def Let_def st'_def st_def st0_def paginateLoop_filter)
  with pne have "paginateParagraphs ar measurer titleMeasurer (filter (\<lambda>p. p \<noteq> []) allParagraphs)
            availableHeight fontSize lineHeight paragraphSpacing containerWidth chapterTitle
        = pages st'"
    by simp
  with res show "paginateParagraphs ar measurer titleMeasurer allParagraphs availableHeight fontSize
           lineHeight paragraphSpacing containerWidth chapterTitle
        = paginateParagraphs ar measurer titleMeasurer (filter (\<lambda>p. p \<noteq> []) allParagraphs)
            availableHeight fontSize lineHeight paragraphSpacing containerWidth chapterTitle"
    by simp
qed

text \<open>
  A concrete run of C10: a list with an empty paragraph between two others, and a list
  of two empty paragraphs.
\<close>

theorem paginate_pages_nonempty_witness:
  "\<not> numLe realArith 38 (numZero realArith) \<and> \<not> numLe realArith 100 (numZero realArith) \<and>
   \<not> list_all (\<lambda>p. p = []) [js ''abcdefghij'', js '''', js ''klm''] \<and>
   list_all (\<lambda>pg. paragraphs pg \<noteq> [] \<and> list_all (\<lambda>f. text f \<noteq> []) (paragraphs pg))
     (paginateParagraphs realArith (fixedMeasure 2 10) (fixedMeasure 2 14)
        [js ''abcdefghij'', js '''', js ''klm''] 38 10 1 1 100 None) \<and>
   paginateParagraphs realArith (fixedMeasure 2 10) (fixedMeasure 2 14)
        [js ''abcdefghij'', js '''', js ''klm''] 38 10 1 1 100 None
     = paginateParagraphs realArith (fixedMeasure 2 10) (fixedMeasure 2 14)
        [js ''abcdefghij'', js ''klm''] 38 10 1 1 100 None \<and>
   list_all (\<lambda>p. p = []) [js '''', js ''''] \<and>
   paginateParagraphs realArith (fixedMeasure 2 10) (fixedMeasure 2 14)
        [js '''', js ''''] 38 10 1 1 100 None
     = [\<lparr>paragraphs = [\<lparr>text = [], fullText = [], isContinuation = False\<rparr>,
                        \<lparr>text = [], fullText = [], isContinuation = False\<rparr>],
         showTitle = True\<rparr>]"
proof -
  have h: "\<not> numLe realArith 38 (numZero realArith) \<and> \<not> numLe realArith 100 (numZero realArith) \<and>
           \<not> list_all (\<lambda>p. p = []) [js ''abcdefghij'', js '''', js ''klm'']"
    by (simp add: js_def realArith_def)
  have f: "filter (\<lambda>p. p \<noteq> []) [js ''abcdefghij'', js '''', js ''klm'']
           = [js ''abcdefghij'', js ''klm'']"
    by (simp add: js_def)
  have e: "list_all (\<lambda>p. p = []) [js '''', js '''']" by (simp add: js_def)
  have w: "wrapParas [js '''', js '''']
           = [\<lparr>text = [], fullText = [], isContinuation = False\<rparr>,
              \<lparr>text = [], fullText = [], isContinuation = False\<rparr>]"
    by (simp add: wrapParas_def js_def)
  from paginate_pages_nonempty[of realArith "fixedMeasure 2 10" "fixedMeasure 2 14"
        "[js ''abcdefghij'', js '''', js ''klm'']" 38 10 1 1 100 None]
       paginate_pages_nonempty[of realArith "fixedMeasure 2 10" "fixedMeasure 2 14"
        "[js '''', js '''']" 38 10 1 1 100 None]
       h e
  show ?thesis unfolding f w by blast
qed

text \<open>
  Claim C10 as stated fails when every paragraph is the empty string: with positive
  height and width and the non-empty paragraph list \<open>[""]\<close> the loop produces no page,
  and the final fallback returns one page whose only fragment has the empty display text.
\<close>

theorem paginate_empty_paragraph_counterexample:
  "0 < (600::real) \<and> 0 < (400::real) \<and> [js ''''] \<noteq> [] \<and>
   paginateParagraphs realArith (fixedMeasure 20 30) (fixedMeasure 16 32) [js ''''] 600 18 2 1 400 None
     = [\<lparr>paragraphs = [\<lparr>text = [], fullText = [], isContinuation = False\<rparr>], showTitle = True\<rparr>]"
  by code_simp

text \<open>
  Claim C2 (determinism). The page list is a function of the paragraphs, the title, the
  layout parameters and the answers of the measurement capability, and of nothing else:
  two runs with the same paragraphs, title and parameters whose measurement functions
  give equal heights to every contiguous piece of every paragraph, and to the title,
  return the same page list (same pages, fragments, display texts, full texts,
  continuation flags and title flags). Identical measurement functions are the special
  case where the two agree everywhere.
\<close>

theorem pagination_deterministic:
  assumes "list_all (agreeOn measurer1 measurer2) allParagraphs"
      and "agreeOnTitle titleMeasurer1 titleMeasurer2 chapterTitle"
  shows "paginateParagraphs ar measurer1 titleMeasurer1 allParagraphs availableHeight fontSize
           lineHeight paragraphSpacing containerWidth chapterTitle
       = paginateParagraphs ar measurer2 titleMeasurer2 allParagraphs availableHeight fontSize
           lineHeight paragraphSpacing containerWidth chapterTitle"
proof -
  have "titleHeight ar titleMeasurer1 fontSize chapterTitle
        = titleHeight ar titleMeasurer2 fontSize chapterTitle"
    using assms(2) by (simp add: titleHeight_def agreeOnTitle_def split: option.splits)
  then show ?thesis
    unfolding paginateParagraphs_def paginateLoop_agree[OF assms(1)] by simp
qed

lemma agreeOn_capped:
  "length p \<le> cap \<Longrightarrow> agreeOn (fixedMeasure c h) (cappedMeasure cap c h) p"
proof -
  assume le: "length p \<le> cap"
  have "\<And>i j. length (take i (drop j p)) \<le> cap" using le by simp
  then show ?thesis by (simp add: agreeOn_def cappedMeasure_def del: length_take length_drop)
qed

theorem pagination_deterministic_witness:
  "list_all (agreeOn (fixedMeasure 2 10) (cappedMeasure 10 2 10)) [js ''abcdefghij'', js ''klm''] \<and>
   agreeOnTitle (fixedMeasure 2 14) (cappedMeasure 1 2 14) (Some (js ''T'')) \<and>
   paginateParagraphs realArith (fixedMeasure 2 10) (fixedMeasure 2 14) [js ''abcdefghij'', js ''klm'']
       68 10 1 1 100 (Some (js ''T''))
     = paginateParagraphs realArith (cappedMeasure 10 2 10) (cappedMeasure 1 2 14)
         [js ''abcdefghij'', js ''klm''] 68 10 1 1 100 (Some (js ''T''))"
proof -
  have a: "list_all (agreeOn (fixedMeasure 2 10) (cappedMeasure 10 2 10)) [js ''abcdefghij'', js ''klm'']"
    by (simp add: agreeOn_capped js_def)
  have b: "agreeOnTitle (fixedMeasure 2 14) (cappedMeasure 1 2 14) (Some (js ''T''))"
    by (simp add: agreeOnTitle_def cappedMeasure_def js_def)
  from pagination_deterministic[OF a b] a b show ?thesis by blast
qed

text \<open>
  Claim C3, as amended. The placement loop of every paragraph leaves the loop within
  \<open>loopVariant\<close> iterations (twice the length of the text, plus one), for every state,
  text, measurement function and arithmetic. An iteration that leaves the loop has
  placed all the remaining text as one fragment (it fitted, or it was force-placed on an
  empty page). An iteration that continues has either consumed a non-empty prefix of the
  remaining text, or, placing nothing and keeping the text, flushed a non-empty page and
  left an empty one. And a single non-empty paragraph for which the code finds the text
  budget of the empty first page below one line height, or of which not even a
  one-character prefix fits, gives exactly one page holding the whole paragraph as one
  fragment.
\<close>

theorem oversize_paragraph_terminates:
  "placeIter ar (loopVariant remaining st) measurer safeHeight spacingPx minLineHeight
       fullTxt remaining isFirstFragment st
     = Some (placeParagraph ar measurer safeHeight spacingPx minLineHeight
               fullTxt remaining isFirstFragment st) \<and>
   (placeStep ar measurer safeHeight spacingPx minLineHeight fullTxt remaining isFirstFragment st
      = Break stB \<longrightarrow>
    allFrags stB = allFrags st @ [\<lparr>text = remaining, fullText = fullTxt,
                                   isContinuation = \<not> isFirstFragment\<rparr>]) \<and>
   (remaining \<noteq> [] \<and>
    placeStep ar measurer safeHeight spacingPx minLineHeight fullTxt remaining isFirstFragment st
      = Continue r' f' stC \<longrightarrow>
    (\<exists>k. 0 < k \<and> take k remaining \<noteq> [] \<and> r' = drop k remaining \<and>
         allFrags stC = allFrags st @ [\<lparr>text = take k remaining, fullText = fullTxt,
                                        isContinuation = \<not> isFirstFragment\<rparr>])
    \<or> (currentPageParas st \<noteq> [] \<and> currentPageParas stC = [] \<and> r' = remaining \<and>
        allFrags stC = allFrags st)) \<and>
   (p \<noteq> [] \<and> \<not> numLe ar availableHeight (numZero ar) \<and> \<not> numLe ar containerWidth (numZero ar) \<and>
    (\<not> numLe ar (numMul ar fontSize lineHeight)
          (firstTextBudget ar titleMeasurer availableHeight fontSize chapterTitle)
     \<or> findSplitPoint ar measurer' p
          (firstTextBudget ar titleMeasurer availableHeight fontSize chapterTitle) = 0) \<longrightarrow>
    paginateParagraphs ar measurer' titleMeasurer [p] availableHeight fontSize lineHeight
        paragraphSpacing containerWidth chapterTitle
      = [\<lparr>paragraphs = [\<lparr>text = p, fullText = p, isContinuation = False\<rparr>], showTitle = True\<rparr>])"
proof (intro conjI impI)
  show "placeIter ar (loopVariant remaining st) measurer safeHeight spacingPx minLineHeight
       fullTxt remaining isFirstFragment st
     = Some (placeParagraph ar measurer safeHeight spacingPx minLineHeight
               fullTxt remaining isFirstFragment st)"
    by (rule placeIter_enough) simp
next
  assume "placeStep ar measurer safeHeight spacingPx minLineHeight fullTxt remaining
             isFirstFragment st = Break stB"
  then show "allFrags stB = allFrags st @ [\<lparr>text = remaining, fullText = fullTxt,
                                   isContinuation = \<not> isFirstFragment\<rparr>]"
    by (rule placeStep_Break_frags)
next
  assume "remaining \<noteq> [] \<and>
    placeStep ar measurer safeHeight spacingPx minLineHeight fullTxt remaining isFirstFragment st
      = Continue r' f' stC"
  then show "(\<exists>k. 0 < k \<and> take k remaining \<noteq> [] \<and> r' = drop k remaining \<and>
         allFrags stC = allFrags st @ [\<lparr>text = take k remaining, fullText = fullTxt,
                                        isContinuation = \<not> isFirstFragment\<rparr>])
    \<or> (currentPageParas st \<noteq> [] \<and> currentPageParas stC = [] \<and> r' = remaining \<and>
        allFrags stC = allFrags st)"
    using placeStep_Continue_cases[of ar measurer safeHeight spacingPx minLineHeight fullTxt
        remaining isFirstFragment st r' f' stC]
    by simp
next
  assume "p \<noteq> [] \<and> \<not> numLe ar availableHeight (numZero ar) \<and> \<not> numLe ar containerWidth (numZero ar) \<and>
    (\<not> numLe ar (numMul ar fontSize lineHeight)
          (firstTextBudget ar titleMeasurer availableHeight fontSize chapterTitle)
     \<or> findSplitPoint ar measurer' p
          (firstTextBudget ar titleMeasurer availableHeight fontSize chapterTitle) = 0)"
  then show "paginateParagraphs ar measurer' titleMeasurer [p] availableHeight fontSize lineHeight
        paragraphSpacing containerWidth chapterTitle
      = [\<lparr>paragraphs = [\<lparr>text = p, fullText = p, isContinuation = False\<rparr>], showTitle = True\<rparr>]"
    using oversize_single[of p ar availableHeight containerWidth fontSize lineHeight titleMeasurer
        chapterTitle measurer' paragraphSpacing]
    by simp
qed

text \<open>
  A concrete run of C3: a three-character paragraph with a budget of 4 under a line
  height of 10 is force-placed; a ten-character paragraph that does not fit three lines
  loses its first six characters to the first page.
\<close>

theorem oversize_paragraph_terminates_witness:
  "placeIter realArith (loopVariant (js ''abc'') emptyPage) (fixedMeasure 2 10) 4 5 10
       (js ''abc'') (js ''abc'') True emptyPage
     = Some \<lparr>pages = [\<lparr>paragraphs = [\<lparr>text = js ''abc'', fullText = js ''abc'',
                                           isContinuation = False\<rparr>], showTitle = True\<rparr>],
             currentPageParas = [], currentHeight = 0\<rparr> \<and>
   placeStep realArith (fixedMeasure 2 10) 4 5 10 (js ''abc'') (js ''abc'') True emptyPage
     = Break \<lparr>pages = [\<lparr>paragraphs = [\<lparr>text = js ''abc'', fullText = js ''abc'',
                                            isContinuation = False\<rparr>], showTitle = True\<rparr>],
              currentPageParas = [], currentHeight = 0\<rparr> \<and>
   js ''abcdefghij'' \<noteq> [] \<and>
   placeStep realArith (fixedMeasure 2 10) 30 10 10 (js ''abcdefghij'') (js ''abcdefghij'') True
       emptyPage
     = Continue (js ''ghij'') False
         \<lparr>pages = [\<lparr>paragraphs = [\<lparr>text = js ''abcdef'', fullText = js ''abcdefghij'',
                                      isContinuation = False\<rparr>], showTitle = True\<rparr>],
          currentPageParas = [], currentHeight = 0\<rparr> \<and>
   (\<exists>k. 0 < k \<and> take k (js ''abcdefghij'') \<noteq> [] \<and> js ''ghij'' = drop k (js ''abcdefghij'')) \<and>
   js ''abc'' \<noteq> [] \<and> \<not> numLe realArith 12 (numZero realArith) \<and>
   \<not> numLe realArith 100 (numZero realArith) \<and>
   \<not> numLe realArith (numMul realArith 10 1)
        (firstTextBudget realArith (fixedMeasure 2 14) 12 10 None) \<and>
   paginateParagraphs realArith (fixedMeasure 2 10) (fixedMeasure 2 14) [js ''abc''] 12 10 1 (1 / 2)
       100 None
     = [\<lparr>paragraphs = [\<lparr>text = js ''abc'', fullText = js ''abc'', isContinuation = False\<rparr>],
         showTitle = True\<rparr>]"
proof -
  let ?one = "\<lparr>pages = [\<lparr>paragraphs = [\<lparr>text = js ''abc'', fullText = js ''abc'',
                                           isContinuation = False\<rparr>], showTitle = True\<rparr>],
             currentPageParas = [], currentHeight = 0 :: real\<rparr>"
  let ?two = "\<lparr>pages = [\<lparr>paragraphs = [\<lparr>text = js ''abcdef'', fullText = js ''abcdefghij'',
                                      isContinuation = False\<rparr>], showTitle = True\<rparr>],
          currentPageParas = [], currentHeight = 0 :: real\<rparr>"
  have h: "js ''abc'' \<noteq> [] \<and> \<not> numLe realArith 12 (numZero realArith) \<and>
           \<not> numLe realArith 100 (numZero realArith) \<and>
           \<not> numLe realArith (numMul realArith 10 1)
                (firstTextBudget realArith (fixedMeasure 2 14) 12 10 None)"
    by (simp add: js_def realArith_def firstTextBudget_def titleHeight_def)
  have b: "placeStep realArith (fixedMeasure 2 10) 4 5 10 (js ''abc'') (js ''abc'') True emptyPage
           = Break ?one"
    by code_simp
  have c: "js ''abcdefghij'' \<noteq> [] \<and>
           placeStep realArith (fixedMeasure 2 10) 30 10 10 (js ''abcdefghij'') (js ''abcdefghij'')
             True emptyPage = Continue (js ''ghij'') False ?two"
    by code_simp
  have run: "placeParagraph realArith (fixedMeasure 2 10) 4 5 10 (js ''abc'') (js ''abc'') True
               emptyPage = ?one"
    by code_simp
  note i1 = oversize_paragraph_terminates[where ar = realArith and remaining = "js ''abc''"
      and st = emptyPage and measurer = "fixedMeasure 2 10" and safeHeight = 4 and spacingPx = 5
      and minLineHeight = 10 and fullTxt = "js ''abc''" and isFirstFragment = True
      and stB = ?one and p = "js ''abc''" and availableHeight = 12 and containerWidth = 100
      and fontSize = 10 and lineHeight = 1 and titleMeasurer = "fixedMeasure 2 14"
      and chapterTitle = None and measurer' = "fixedMeasure 2 10" and paragraphSpacing = "1 / 2"]
  note i2 = oversize_paragraph_terminates[where ar = realArith and remaining = "js ''abcdefghij''"
      and st = emptyPage and measurer = "fixedMeasure 2 10" and safeHeight = 30 and spacingPx = 10
      and minLineHeight = 10 and fullTxt = "js ''abcdefghij''" and isFirstFragment = True
      and r' = "js ''ghij''" and f' = False and stC = ?two]
  have k: "\<exists>k. 0 < k \<and> take k (js ''abcdefghij'') \<noteq> [] \<and> js ''ghij'' = drop k (js ''abcdefghij'')"
    using i2[THEN conjunct2, THEN conjunct2, THEN conjunct1, rule_format, OF c]
    by (auto simp: emptyPage_def)
  from i1 h b c k show ?thesis unfolding run by simp
qed

text \<open>
  Claim C3 as stated gives as the reason for termination that every iteration consumes a
  non-empty prefix or force-places the remaining text. The second iteration below does
  neither. With a safe height of 30, lines of height 10 and a paragraph gap of 10, the
  paragraph \<open>abcd\<close> takes two lines of the first page; the next paragraph \<open>klm\<close> needs
  two lines and the gap, the space left after the gap is under one line, so the page is
  flushed and the same text is retried on an empty page.
\<close>

theorem placement_flush_retry_counterexample:
  "placeParagraph realArith (fixedMeasure 2 10) 30 10 10 (js ''abcd'') (js ''abcd'') True emptyPage
     = fullPage \<and>
   js ''klm'' \<noteq> [] \<and>
   placeStep realArith (fixedMeasure 2 10) 30 10 10 (js ''klm'') (js ''klm'') True fullPage
     = Continue (js ''klm'') True
         \<lparr>pages = [\<lparr>paragraphs = [\<lparr>text = js ''abcd'', fullText = js ''abcd'',
                                      isContinuation = False\<rparr>], showTitle = True\<rparr>],
          currentPageParas = [], currentHeight = 0\<rparr>"
  by code_simp

section \<open>Path resolution (utils)\<close>

text \<open>
  Exceptions are values: a function that can throw returns \<open>jserror + 'a\<close>, with
  \<open>Inl\<close> the exception. \<open>URIError\<close> is thrown by the built-in
  \<open>decodeURIComponent\<close>; \<open>Error msg\<close> is \<open>throw new Error(msg)\<close>.
\<close>


datatype jserror = URIError | Error string

text \<open>
  The built-in \<open>decodeURIComponent\<close> (ECMAScript \<open>Decode\<close> with an empty reserved set).
  Every \<open>%\<close> must be followed by two hexadecimal digits. An octet below \<open>0x80\<close> is the
  character itself; otherwise the octet leads a UTF-8 sequence of two to four octets, each
  further one written as its own escape, which must be the well-formed encoding of a code
  point; the code point is appended as one or two UTF-16 code units. Anything else throws
  \<open>URIError\<close>. The decoder first reads the escapes (\<open>uriTokens\<close>), then the sequences
  (\<open>decodeTokens\<close>).
\<close>

definition hexDigit :: "16 word \<Rightarrow> nat option" where
  "hexDigit c =
     (if 0x30 \<le> c \<and> c \<le> 0x39 then Some (unat c - 0x30)
      else if 0x41 \<le> c \<and> c \<le> 0x46 then Some (unat c - 0x41 + 10)
      else if 0x61 \<le> c \<and> c \<le> 0x66 then Some (unat c - 0x61 + 10)
      else None)"

datatype uritoken = Lit "16 word" | Octet nat

fun uriTokens :: "jsstring \<Rightarrow> uritoken list option" where
  "uriTokens [] = Some []"
| "uriTokens (c # cs) =
     (if c = 0x25 then
        (case cs of
           h1 # h2 # rest \<Rightarrow>
             (case (hexDigit h1, hexDigit h2) of
                (Some a, Some b) \<Rightarrow> map_option (Cons (Octet (16 * a + b))) (uriTokens rest)
              | _ \<Rightarrow> None)
         | _ \<Rightarrow> None)
      else map_option (Cons (Lit c)) (uriTokens cs))"

definition leadingOnes :: "nat \<Rightarrow> nat" where
  "leadingOnes b =
     (if b < 0x80 then 0 else if b < 0xC0 then 1 else if b < 0xE0 then 2
      else if b < 0xF0 then 3 else if b < 0xF8 then 4 else 5)"

fun continuation :: "nat \<Rightarrow> uritoken list \<Rightarrow> (nat list \<times> uritoken list) option" where
  "continuation 0 ts = Some ([], ts)"
| "continuation (Suc n) (Octet b # ts) =
     (case continuation n ts of None \<Rightarrow> None | Some (bs, rest) \<Rightarrow> Some (b # bs, rest))"
| "continuation (Suc n) ts = None"

definition utf8CodePoint :: "nat \<Rightarrow> nat list \<Rightarrow> nat option" where
  "utf8CodePoint b bs =
     (let n = Suc (length bs);
          v = foldl (\<lambda>acc c. acc * 64 + (c - 0x80)) (b mod 2 ^ (7 - n)) bs;
          lowest = (if n = 2 then 0x80 else if n = 3 then 0x800 else 0x10000)
      in if list_all (\<lambda>c. 0x80 \<le> c \<and> c < 0xC0) bs \<and> lowest \<le> v \<and> v \<le> 0x10FFFF
            \<and> \<not> (0xD800 \<le> v \<and> v \<le> 0xDFFF)
         then Some v else None)"

definition utf16Encode :: "nat \<Rightarrow> jsstring" where
  "utf16Encode v =
     (if v < 0x10000 then [of_nat v]
      else [of_nat (0xD800 + (v - 0x10000) div 0x400), of_nat (0xDC00 + (v - 0x10000) mod 0x400)])"

lemma continuation_length:
  "continuation n ts = Some (bs, rest) \<Longrightarrow> length rest \<le> length ts"
  by (induction n ts arbitrary: bs rest rule: continuation.induct)
     (auto split: option.splits)

function decodeTokens :: "uritoken list \<Rightarrow> jsstring option" where
  "decodeTokens [] = Some []"
| "decodeTokens (Lit c # ts) = map_option (Cons c) (decodeTokens ts)"
| "decodeTokens (Octet b # ts) =
     (let n = leadingOnes b in
      if n = 0 then map_option (Cons (of_nat b)) (decodeTokens ts)
      else if n = 1 \<or> n > 4 then None
      else (case continuation (n - 1) ts of
              None \<Rightarrow> None
            | Some (bs, rest) \<Rightarrow>
                (case utf8CodePoint b bs of
                   None \<Rightarrow> None
                 | Some v \<Rightarrow> map_option (append (utf16Encode v)) (decodeTokens rest))))"
  by pat_completeness auto
termination
  by (relation "measure length") (auto dest: continuation_length)

declare decodeTokens.simps [simp del]

definition decodeURIComponent :: "jsstring \<Rightarrow> jserror + jsstring" where
  "decodeURIComponent s =
     (case uriTokens s of
        None \<Rightarrow> Inl URIError
      | Some ts \<Rightarrow> (case decodeTokens ts of None \<Rightarrow> Inl URIError | Some r \<Rightarrow> Inr r))"

text \<open>
  The built-ins \<open>String.prototype.split\<close> with a one-character separator (the result
  is never empty) and \<open>Array.prototype.join\<close>. \<open>Array.prototype.pop\<close> is \<open>butlast\<close>:
  popping an empty array leaves it empty.
\<close>

fun jsSplit :: "16 word \<Rightarrow> jsstring \<Rightarrow> jsstring list" where
  "jsSplit sep [] = [[]]"
| "jsSplit sep (c # cs) =
     (if c = sep then [] # jsSplit sep cs
      else (case jsSplit sep cs of [] \<Rightarrow> [[c]] | p # ps \<Rightarrow> (c # p) # ps))"

fun jsJoin :: "jsstring \<Rightarrow> jsstring list \<Rightarrow> jsstring" where
  "jsJoin sep [] = []"
| "jsJoin sep [x] = x"
| "jsJoin sep (x # y # zs) = x @ sep @ jsJoin sep (y # zs)"

text \<open>\<open>resolvePath\<close>; \<open>resolveStep\<close> is the body of its \<open>for\<close> loop over \<open>relParts\<close>.\<close>

definition resolveStep :: "jsstring list \<Rightarrow> jsstring \<Rightarrow> jsstring list" where
  "resolveStep baseParts part =
     (if part = js ''..'' then butlast baseParts
      else if part \<noteq> js ''.'' then baseParts @ [part]
      else baseParts)"

definition resolvePath :: "jsstring \<Rightarrow> jsstring \<Rightarrow> jserror + jsstring" where
  "resolvePath base relative =
     (if take 1 relative = js ''/'' then Inr (drop 1 relative)
      else (case decodeURIComponent relative of
              Inl e \<Rightarrow> Inl e
            | Inr decoded \<Rightarrow>
                (let baseParts = butlast (jsSplit 0x2F base);
                     relParts = jsSplit 0x2F decoded
                 in Inr (jsJoin (js ''/'') (foldl resolveStep baseParts relParts)))))"

subsection \<open>The resolution algorithm as the specification words it\<close>

text \<open>
  Written from the specification: a reference that starts with the root marker is
  returned without the marker; otherwise the reference is percent-decoded, the base path
  is split into segments and its final segment dropped, and the segments of the decoded
  reference are processed in order (\<open>..\<close> pops the last accumulated segment, \<open>.\<close> is
  ignored, anything else is appended); the remaining segments are joined with \<open>/\<close>. A
  reference that cannot be percent-decoded has no decoded form to process, so the failure
  of the decoder is the result.
\<close>

fun processSegments :: "jsstring list \<Rightarrow> jsstring list \<Rightarrow> jsstring list" where
  "processSegments acc [] = acc"
| "processSegments acc (seg # segs) =
     (if seg = js ''..'' then processSegments (butlast acc) segs
      else if seg = js ''.'' then processSegments acc segs
      else processSegments (acc @ [seg]) segs)"

definition resolveSpec :: "jsstring \<Rightarrow> jsstring \<Rightarrow> jserror + jsstring" where
  "resolveSpec basePath relativeRef =
     (if relativeRef \<noteq> [] \<and> hd relativeRef = 0x2F then Inr (tl relativeRef)
      else map_sum id
             (\<lambda>decoded. jsJoin (js ''/'')
                (processSegments (butlast (jsSplit 0x2F basePath)) (jsSplit 0x2F decoded)))
             (decodeURIComponent relativeRef))"

subsection \<open>Properties of path resolution\<close>

lemma foldl_resolveStep: "foldl resolveStep acc segs = processSegments acc segs"
  by (induction segs arbitrary: acc) (simp_all add: resolveStep_def)

lemma js_slash: "js ''/'' = [0x2F]"
  by (simp add: js_def)

lemma startsWith_slash: "(take 1 r = js ''/'') = (case r of [] \<Rightarrow> False | c # cs \<Rightarrow> c = 0x2F)"
  by (cases r) (simp_all add: js_slash)

text \<open>
  Claim C4. \<open>resolvePath\<close> computes exactly the algorithm of the specification, for
  every base path and reference, and resolving \<open>../images/x.png\<close> against
  \<open>OEBPS/content.opf\<close> gives \<open>images/x.png\<close>.
\<close>

theorem resolvePath_follows_spec:
  "resolvePath base relative = resolveSpec base relative \<and>
   resolvePath (js ''OEBPS/content.opf'') (js ''../images/x.png'') = Inr (js ''images/x.png'')"
proof
  show "resolvePath base relative = resolveSpec base relative"
    by (cases relative; cases "decodeURIComponent relative")
       (simp_all add: resolvePath_def resolveSpec_def js_slash foldl_resolveStep Let_def)
  show "resolvePath (js ''OEBPS/content.opf'') (js ''../images/x.png'') = Inr (js ''images/x.png'')"
    by code_simp
qed

lemma uriTokens_plain: "0x25 \<notin> set s \<Longrightarrow> uriTokens s = Some (map Lit s)"
  by (induction s) auto

lemma decodeTokens_Lit: "decodeTokens (map Lit s) = Some s"
  by (induction s) (simp_all add: decodeTokens.simps)

lemma decodeURIComponent_plain: "0x25 \<notin> set s \<Longrightarrow> decodeURIComponent s = Inr s"
  by (simp add: decodeURIComponent_def uriTokens_plain decodeTokens_Lit)

lemma decodeURIComponent_error: "decodeURIComponent s = Inl e \<Longrightarrow> e = URIError"
  by (auto simp: decodeURIComponent_def split: option.splits)

lemma foldl_dotdot:
  "foldl resolveStep acc (replicate k (js ''..'')) = take (length acc - k) acc"
proof (induction k arbitrary: acc)
  case 0
  show ?case by simp
next
  case (Suc k)
  have "foldl resolveStep acc (replicate (Suc k) (js ''..''))
        = foldl resolveStep (butlast acc) (replicate k (js ''..''))"
    by (simp add: resolveStep_def)
  also have "\<dots> = take (length (butlast acc) - k) (butlast acc)" by (rule Suc.IH)
  also have "\<dots> = take (length acc - Suc k) acc"
    by (simp add: butlast_conv_take min_def)
  finally show ?case .
qed

text \<open>
  Claim C9, as amended. \<open>resolvePath\<close> returns a path for every base path and every
  reference that starts with \<open>/\<close> or contains no \<open>%\<close>; its only failure is the
  \<open>URIError\<close> of percent-decoding the reference. Surplus \<open>..\<close> segments never fail:
  \<open>k\<close> of them leave the first \<open>length acc - k\<close> accumulated segments, none when
  \<open>k\<close> exceeds the length, and \<open>../../x.png\<close> against \<open>content.opf\<close> gives \<open>x.png\<close>.
\<close>

theorem resolvePath_fails_only_decoding:
  "(take 1 relative = js ''/'' \<or> 0x25 \<notin> set relative
      \<longrightarrow> (\<exists>r. resolvePath base relative = Inr r)) \<and>
   (resolvePath base relative = Inl e
      \<longrightarrow> e = URIError \<and> decodeURIComponent relative = Inl URIError) \<and>
   foldl resolveStep acc (replicate k (js ''..'')) = take (length acc - k) acc \<and>
   resolvePath (js ''content.opf'') (js ''../../x.png'') = Inr (js ''x.png'')"
proof (intro conjI impI)
  assume "take 1 relative = js ''/'' \<or> 0x25 \<notin> set relative"
  then show "\<exists>r. resolvePath base relative = Inr r"
    by (auto simp: resolvePath_def decodeURIComponent_plain Let_def)
next
  assume a: "resolvePath base relative = Inl e"
  then show "e = URIError"
    by (auto simp: resolvePath_def Let_def split: if_splits sum.splits
             dest: decodeURIComponent_error)
  from a show "decodeURIComponent relative = Inl URIError"
    by (auto simp: resolvePath_def Let_def split: if_splits sum.splits
             dest: decodeURIComponent_error)
next
  show "foldl resolveStep acc (replicate k (js ''..'')) = take (length acc - k) acc"
    by (rule foldl_dotdot)
  show "resolvePath (js ''content.opf'') (js ''../../x.png'') = Inr (js ''x.png'')"
    by code_simp
qed

theorem resolvePath_fails_only_decoding_witness:
  "0x25 \<notin> set (js ''../../x.png'') \<and>
   (\<exists>r. resolvePath (js ''content.opf'') (js ''../../x.png'') = Inr r) \<and>
   resolvePath (js ''content.opf'') (js ''100%.xhtml'') = Inl URIError \<and>
   decodeURIComponent (js ''100%.xhtml'') = Inl URIError \<and>
   foldl resolveStep [js ''a''] (replicate 3 (js ''..'')) = []"
proof -
  have p: "0x25 \<notin> set (js ''../../x.png'')" by (simp add: js_def)
  have f: "resolvePath (js ''content.opf'') (js ''100%.xhtml'') = Inl URIError" by code_simp
  from resolvePath_fails_only_decoding[of "js ''../../x.png''" "js ''content.opf''" URIError "[js ''a'']" 3]
       resolvePath_fails_only_decoding[of "js ''100%.xhtml''" "js ''content.opf''" URIError "[]" 0]
       p f
  show ?thesis by simp
qed

text \<open>
  Claim C9 as stated (total, never fails) is false: a reference with a \<open>%\<close> that is not
  followed by two hexadecimal digits makes \<open>decodeURIComponent\<close> throw, and
  \<open>resolvePath\<close> does not catch it.
\<close>

theorem resolvePath_malformed_escape_counterexample:
  "resolvePath (js ''OEBPS/content.opf'') (js ''100%.xhtml'') = Inl URIError"
  by code_simp

section \<open>Quote identifiers (utils)\<close>

text \<open>
  The fields \<open>id\<close> and \<open>text\<close> of \<open>QuoteItem\<close> carry a prime, since both names are
  taken.

  Numbers are IEEE doubles. The model follows them exactly where they are integers of
  magnitude at most \<open>2 ^ 53\<close>: every such integer is a double, \<open>parseInt\<close> returns it
  exactly, \<open>String\<close> prints it in decimal without exponent, and adding one is exact
  except at \<open>2 ^ 53\<close> itself, where the sum \<open>2 ^ 53 + 1\<close> is not a double and rounds to
  the even neighbour \<open>2 ^ 53\<close>. \<open>NaN\<close> is followed as well. Every other number (a
  magnitude beyond \<open>2 ^ 53\<close>, a fraction, an infinity) is \<open>Other\<close>: the model records
  that such a number arose and says nothing about it, so a string computed from it is
  \<open>None\<close>. \<open>num\<close> is the number with a given integer value.
\<close>


record QuoteItem =
  id' :: jsstring
  text' :: jsstring
  author :: "jsstring option"
  source :: "jsstring option"
  tags :: "jsstring list option"
  chapterIndex :: int
  chapterTitle :: jsstring

datatype jsnumber = NaN | Num int | Other



function digitsOf :: "nat \<Rightarrow> jsstring" where
  "digitsOf n = (if n < 10 then [of_nat (48 + n)] else digitsOf (n div 10) @ [of_nat (48 + n mod 10)])"
  by pat_completeness auto
termination
  by (relation "measure id") auto

declare digitsOf.simps [simp del]



definition isWhiteSpace :: "16 word \<Rightarrow> bool" where
  "isWhiteSpace c \<longleftrightarrow>
     c \<in> {0x09, 0x0A, 0x0B, 0x0C, 0x0D, 0x20, 0xA0, 0x1680, 0x2028, 0x2029, 0x202F, 0x205F,
          0x3000, 0xFEFF} \<or> (0x2000 \<le> c \<and> c \<le> 0x200A)"




definition isNum :: "jsnumber \<Rightarrow> bool" where
  "isNum x = (case x of Num n \<Rightarrow> True | _ \<Rightarrow> False)"







subsection \<open>Properties of the identifier helper\<close>



















section \<open>Windowed chapter loader (Reader component, scroll mode)\<close>

text \<open>
  The React state \<open>scrollChapterRange\<close> and the ref \<open>prependLock\<close>. A handler reads the
  range from its closure, which is the range of the last render, while an updater
  function passed to \<open>setScrollChapterRange\<close> receives the latest range, with all
  earlier updates applied. So the state has both: \<open>scrollChapterRange\<close> is the latest
  range and \<open>rendered\<close> is the one the installed handlers have captured; a render
  (\<open>render\<close>) brings the second up to the first. The updater functions of
  \<open>handleScroll\<close> are \<open>expandEnd\<close> and \<open>expandStart\<close>. \<open>chapterCount\<close> is
  \<open>bookMeta.chapterCount\<close>, the number of chapters of the stored book, which is 0 for a
  book none of whose spine items gave a chapter. Chapter indices and the chapter count
  are integers far below \<open>2 ^ 53\<close>, which doubles represent exactly with exact sums and
  differences, so they are of type \<open>int\<close>.
\<close>

record ChapterRange =
  start :: int
  "end" :: int

record scrollState =
  scrollChapterRange :: ChapterRange
  rendered :: ChapterRange
  prependLock :: bool

definition expandEnd :: "int \<Rightarrow> ChapterRange \<Rightarrow> ChapterRange" where
  "expandEnd chapterCount prev =
     (if end prev < chapterCount - 1 then prev\<lparr>end := end prev + 1\<rparr> else prev)"

definition expandStart :: "ChapterRange \<Rightarrow> ChapterRange" where
  "expandStart prev = (if start prev > 0 then prev\<lparr>start := start prev - 1\<rparr> else prev)"

definition render :: "scrollState \<Rightarrow> scrollState" where
  "render st = st\<lparr>rendered := scrollChapterRange st\<rparr>"

text \<open>
  \<open>handleScroll\<close>. \<open>active\<close> says that the reader is in scroll mode, the content element
  exists and no scroll jump is in progress (otherwise the handler returns at once);
  \<open>nearBottom\<close> and \<open>nearTop\<close> are the two proximity tests on the scroll position. The
  outer tests read the captured range, the updaters test the latest one again. The
  detection of the visible chapter does not touch the range and is left out.
\<close>

definition handleScroll :: "int \<Rightarrow> bool \<Rightarrow> bool \<Rightarrow> bool \<Rightarrow> scrollState \<Rightarrow> scrollState" where
  "handleScroll chapterCount active nearBottom nearTop st =
     (if \<not> active then st
      else
        (let seen = rendered st;
             st1 = (if nearBottom \<and> end seen < chapterCount - 1
                    then st\<lparr>scrollChapterRange := expandEnd chapterCount (scrollChapterRange st)\<rparr>
                    else st)
         in if nearTop \<and> start seen > 0 \<and> \<not> prependLock st1
            then st1\<lparr>prependLock := True,
                     scrollChapterRange := expandStart (scrollChapterRange st1)\<rparr>
            else st1))"

text \<open>
  The other writers of the range. The animation-frame callback that releases the lock
  after a prepend. The auto-play loop, when its animation frame finds the content near
  the bottom: it tests the captured \<open>end\<close> and its updater adds one to the latest \<open>end\<close>
  with no test of its own. \<open>goToChapter\<close>. The effect on the \<open>progress\<close> property, when
  the property has changed and carries a target text (a jump from the list of quotes): it
  sets the window to \<open>progress.chapterIndex\<close>, which it does not compare with the number
  of chapters; a change without target text leaves the range alone. And the initial state,
  built from \<open>progress.chapterIndex\<close> in the same way.
\<close>

definition prependSettled :: "scrollState \<Rightarrow> scrollState" where
  "prependSettled st = st\<lparr>prependLock := False\<rparr>"

definition autoScrollNearBottom :: "int \<Rightarrow> scrollState \<Rightarrow> scrollState" where
  "autoScrollNearBottom chapterCount st =
     (if end (rendered st) < chapterCount - 1
      then st\<lparr>scrollChapterRange :=
                (scrollChapterRange st)\<lparr>end := end (scrollChapterRange st) + 1\<rparr>\<rparr>
      else st)"

definition goToChapter :: "int \<Rightarrow> scrollState \<Rightarrow> scrollState" where
  "goToChapter index st = st\<lparr>scrollChapterRange := \<lparr>start = index, end = index\<rparr>\<rparr>"

definition progressJump :: "int \<Rightarrow> scrollState \<Rightarrow> scrollState" where
  "progressJump progressChapter st =
     st\<lparr>scrollChapterRange := \<lparr>start = progressChapter, end = progressChapter\<rparr>\<rparr>"

definition initialScroll :: "int \<Rightarrow> scrollState" where
  "initialScroll progressChapter =
     \<lparr>scrollChapterRange = \<lparr>start = progressChapter, end = progressChapter\<rparr>,
      rendered = \<lparr>start = progressChapter, end = progressChapter\<rparr>,
      prependLock = False\<rparr>"

text \<open>Signals, and the state after a sequence of them.\<close>

datatype signal =
    Scroll bool bool bool
  | PrependSettled
  | AutoScrollNearBottom
  | GoToChapter int
  | ProgressJump int
  | Render

fun deliver :: "int \<Rightarrow> scrollState \<Rightarrow> signal \<Rightarrow> scrollState" where
  "deliver chapterCount st (Scroll active nearBottom nearTop) =
     handleScroll chapterCount active nearBottom nearTop st"
| "deliver chapterCount st PrependSettled = prependSettled st"
| "deliver chapterCount st AutoScrollNearBottom = autoScrollNearBottom chapterCount st"
| "deliver chapterCount st (GoToChapter index) = goToChapter index st"
| "deliver chapterCount st (ProgressJump progressChapter) = progressJump progressChapter st"
| "deliver chapterCount st Render = render st"

definition run :: "int \<Rightarrow> scrollState \<Rightarrow> signal list \<Rightarrow> scrollState" where
  "run chapterCount st signals = foldl (deliver chapterCount) st signals"

text \<open>
  The invariant of the loaded window and its first half, the order of the two ends.
  \<open>coveredSignal\<close> says of a signal arriving in a state that it is a jump to an existing
  chapter, an auto-play expansion whose captured \<open>end\<close> is the latest one, or any other
  signal; \<open>coveredRun\<close> says it of every signal of a sequence, each in the state it
  arrives in. \<open>isBottomSignal\<close> is a scroll signal near the bottom.
\<close>

definition windowInv :: "int \<Rightarrow> scrollState \<Rightarrow> bool" where
  "windowInv chapterCount st \<longleftrightarrow>
     0 \<le> start (scrollChapterRange st) \<and>
     start (scrollChapterRange st) \<le> end (scrollChapterRange st) \<and>
     end (scrollChapterRange st) \<le> chapterCount - 1"

definition windowOrdered :: "scrollState \<Rightarrow> bool" where
  "windowOrdered st \<longleftrightarrow> start (scrollChapterRange st) \<le> end (scrollChapterRange st)"

fun coveredSignal :: "int \<Rightarrow> scrollState \<Rightarrow> signal \<Rightarrow> bool" where
  "coveredSignal chapterCount st (GoToChapter index) = (0 \<le> index \<and> index < chapterCount)"
| "coveredSignal chapterCount st (ProgressJump progressChapter) =
     (0 \<le> progressChapter \<and> progressChapter < chapterCount)"
| "coveredSignal chapterCount st AutoScrollNearBottom =
     (end (rendered st) = end (scrollChapterRange st))"
| "coveredSignal chapterCount st s = True"

fun coveredRun :: "int \<Rightarrow> scrollState \<Rightarrow> signal list \<Rightarrow> bool" where
  "coveredRun chapterCount st [] = True"
| "coveredRun chapterCount st (s # signals) =
     (coveredSignal chapterCount st s \<and> coveredRun chapterCount (deliver chapterCount st s) signals)"

fun isBottomSignal :: "signal \<Rightarrow> bool" where
  "isBottomSignal (Scroll active nearBottom nearTop) = (active \<and> nearBottom)"
| "isBottomSignal s = False"


subsection \<open>Properties of the windowed loader\<close>

lemma deliver_inv:
  "windowInv cc st \<Longrightarrow> coveredSignal cc st s \<Longrightarrow> windowInv cc (deliver cc st s)"
  by (cases s)
     (auto simp: windowInv_def handleScroll_def expandEnd_def expandStart_def Let_def
                 prependSettled_def autoScrollNearBottom_def goToChapter_def progressJump_def
                 render_def)

lemma run_inv:
  "windowInv cc st \<Longrightarrow> coveredRun cc st sigs \<Longrightarrow> windowInv cc (run cc st sigs)"
  unfolding run_def
  by (induction sigs arbitrary: st) (simp_all add: deliver_inv)

lemma deliver_ordered: "windowOrdered st \<Longrightarrow> windowOrdered (deliver cc st s)"
  by (cases s)
     (auto simp: windowOrdered_def handleScroll_def expandEnd_def expandStart_def Let_def
                 prependSettled_def autoScrollNearBottom_def goToChapter_def progressJump_def
                 render_def)

lemma run_ordered: "windowOrdered st \<Longrightarrow> windowOrdered (run cc st sigs)"
  unfolding run_def
  by (induction sigs arbitrary: st) (simp_all add: deliver_ordered)

lemma run_snoc: "run cc st (sigs @ [s]) = deliver cc (run cc st sigs) s"
  by (simp add: run_def)

lemma bottom_signals_aux:
  "list_all (\<lambda>s. isBottomSignal s \<or> s = Render) sigs \<Longrightarrow>
   scrollChapterRange (run 10 (initialScroll 0) sigs)
     = \<lparr>start = 0, end = min (int (length (filter isBottomSignal sigs))) 9\<rparr> \<and>
   start (rendered (run 10 (initialScroll 0) sigs)) = 0 \<and>
   end (rendered (run 10 (initialScroll 0) sigs))
     \<le> min (int (length (filter isBottomSignal sigs))) 9"
proof (induction sigs rule: rev_induct)
  case Nil
  show ?case by (simp add: run_def initialScroll_def)
next
  case (snoc s sigs)
  then have IH: "scrollChapterRange (run 10 (initialScroll 0) sigs)
        = \<lparr>start = 0, end = min (int (length (filter isBottomSignal sigs))) 9\<rparr>"
      "start (rendered (run 10 (initialScroll 0) sigs)) = 0"
      "end (rendered (run 10 (initialScroll 0) sigs))
        \<le> min (int (length (filter isBottomSignal sigs))) 9"
    and s: "isBottomSignal s \<or> s = Render"
    by simp_all
  show ?case
  proof (cases "s = Render")
    case True
    then show ?thesis using IH by (simp add: run_snoc render_def)
  next
    case False
    with s obtain nt where "s = Scroll True True nt" by (cases s) auto
    then show ?thesis using IH
      by (auto simp: run_snoc handleScroll_def expandEnd_def Let_def min_def split: if_splits)
  qed
qed

lemma bottom_signals:
  "list_all (\<lambda>s. isBottomSignal s \<or> s = Render) sigs \<Longrightarrow>
   scrollChapterRange (run 10 (initialScroll 0) sigs)
     = \<lparr>start = 0, end = min (int (length (filter isBottomSignal sigs))) 9\<rparr>"
  using bottom_signals_aux by blast

lemma top_signal:
  "start (scrollChapterRange (handleScroll cc active False nearTop st))
     \<in> {start (scrollChapterRange st), start (scrollChapterRange st) - 1} \<and>
   end (scrollChapterRange (handleScroll cc active False nearTop st)) = end (scrollChapterRange st) \<and>
   (0 \<le> start (scrollChapterRange st)
      \<longrightarrow> 0 \<le> start (scrollChapterRange (handleScroll cc active False nearTop st)))"
  by (auto simp: handleScroll_def expandStart_def Let_def)

text \<open>
  Claim C6, as amended. In every state reachable from any initial window, through any
  sequence of signals, \<open>start \<le> end\<close>. The initial window satisfies the invariant
  \<open>0 \<le> start \<le> end \<le> chapterCount - 1\<close> exactly when the saved chapter index is that of
  an existing chapter, and the invariant then holds in every state reached through scroll
  signals, lock releases, renders, jumps (from the table of contents or from outside) to
  existing chapters, and auto-play expansions whose captured \<open>end\<close> is the latest one.
  From the window \<open>{0,0}\<close> of a book of 10 chapters, after any sequence of
  bottom-proximity signals and renders the window is \<open>{0, min k 9}\<close>, \<open>k\<close> the number of
  bottom-proximity signals: each adds one to \<open>end\<close> until it is 9, and further ones
  leave it unchanged. A top-proximity signal leaves \<open>end\<close> alone and either keeps \<open>start\<close>
  or decrements it by one, never below 0. A jump resets the window to
  \<open>{target, target}\<close>, whatever the target.
\<close>

theorem window_invariant:
  "windowOrdered (run chapterCount (initialScroll progressChapter) signals) \<and>
   (windowInv chapterCount (initialScroll progressChapter)
      \<longleftrightarrow> 0 \<le> progressChapter \<and> progressChapter \<le> chapterCount - 1) \<and>
   (windowInv chapterCount st \<and> coveredRun chapterCount st signals
      \<longrightarrow> windowInv chapterCount (run chapterCount st signals)) \<and>
   (list_all (\<lambda>s. isBottomSignal s \<or> s = Render) signals \<longrightarrow>
      scrollChapterRange (run 10 (initialScroll 0) signals)
        = \<lparr>start = 0, end = min (int (length (filter isBottomSignal signals))) 9\<rparr>) \<and>
   start (scrollChapterRange (handleScroll chapterCount active False nearTop st))
     \<in> {start (scrollChapterRange st), start (scrollChapterRange st) - 1} \<and>
   end (scrollChapterRange (handleScroll chapterCount active False nearTop st))
     = end (scrollChapterRange st) \<and>
   (0 \<le> start (scrollChapterRange st)
      \<longrightarrow> 0 \<le> start (scrollChapterRange (handleScroll chapterCount active False nearTop st))) \<and>
   scrollChapterRange (goToChapter target st) = \<lparr>start = target, end = target\<rparr> \<and>
   scrollChapterRange (progressJump target st) = \<lparr>start = target, end = target\<rparr>"
proof -
  have o: "windowOrdered (run chapterCount (initialScroll progressChapter) signals)"
    by (rule run_ordered) (simp add: windowOrdered_def initialScroll_def)
  have i: "windowInv chapterCount (initialScroll progressChapter)
      \<longleftrightarrow> 0 \<le> progressChapter \<and> progressChapter \<le> chapterCount - 1"
    by (simp add: windowInv_def initialScroll_def)
  show ?thesis
    using o i run_inv[of chapterCount st signals] bottom_signals[of signals]
          top_signal[of chapterCount active nearTop st]
    by (simp add: goToChapter_def progressJump_def)
qed

theorem window_invariant_witness:
  "windowInv 10 (initialScroll 0) \<and>
   coveredRun 10 (initialScroll 0)
     [Scroll True True False, Scroll True True False, Render, GoToChapter 9, Render,
      Scroll True True True, Scroll True False True, PrependSettled, Render,
      Scroll True False True, ProgressJump 4, Render, AutoScrollNearBottom] \<and>
   run 10 (initialScroll 0)
     [Scroll True True False, Scroll True True False, Render, GoToChapter 9, Render,
      Scroll True True True, Scroll True False True, PrependSettled, Render,
      Scroll True False True, ProgressJump 4, Render, AutoScrollNearBottom]
     = \<lparr>scrollChapterRange = \<lparr>start = 4, end = 5\<rparr>, rendered = \<lparr>start = 4, end = 4\<rparr>,
        prependLock = True\<rparr> \<and>
   windowInv 10 \<lparr>scrollChapterRange = \<lparr>start = 4, end = 5\<rparr>, rendered = \<lparr>start = 4, end = 4\<rparr>,
        prependLock = True\<rparr> \<and>
   list_all (\<lambda>s. isBottomSignal s \<or> s = Render)
     (replicate 12 (Scroll True True False) @ [Render, Scroll True True True]) \<and>
   scrollChapterRange (run 10 (initialScroll 0)
       (replicate 12 (Scroll True True False) @ [Render, Scroll True True True]))
     = \<lparr>start = 0, end = 9\<rparr> \<and>
   (0 :: int) \<le> start (scrollChapterRange (initialScroll 0)) \<and>
   0 \<le> start (scrollChapterRange (handleScroll 10 True False True (initialScroll 0)))"
proof -
  let ?sigs = "[Scroll True True False, Scroll True True False, Render, GoToChapter 9, Render,
      Scroll True True True, Scroll True False True, PrependSettled, Render,
      Scroll True False True, ProgressJump 4, Render, AutoScrollNearBottom]"
  let ?bot = "replicate 12 (Scroll True True False) @ [Render, Scroll True True True]"
  have i: "windowInv 10 (initialScroll 0)" by (simp add: windowInv_def initialScroll_def)
  have v: "coveredRun 10 (initialScroll 0) ?sigs"
    by (simp add: initialScroll_def handleScroll_def expandEnd_def expandStart_def
                  Let_def goToChapter_def progressJump_def prependSettled_def render_def)
  have r: "run 10 (initialScroll 0) ?sigs
           = \<lparr>scrollChapterRange = \<lparr>start = 4, end = 5\<rparr>, rendered = \<lparr>start = 4, end = 4\<rparr>,
              prependLock = True\<rparr>"
    by (simp add: run_def initialScroll_def handleScroll_def expandEnd_def expandStart_def
                  Let_def goToChapter_def progressJump_def prependSettled_def
                  autoScrollNearBottom_def render_def)
  have b: "list_all (\<lambda>s. isBottomSignal s \<or> s = Render) ?bot" by (simp add: numeral_eq_Suc)
  have n: "min (int (length (filter isBottomSignal ?bot))) 9 = 9" by (simp add: numeral_eq_Suc)
  have s0: "(0 :: int) \<le> start (scrollChapterRange (initialScroll 0))"
    by (simp add: initialScroll_def)
  from window_invariant[of 10 0 ?sigs "initialScroll 0" True True 0]
  have w1: "windowInv 10 (run 10 (initialScroll 0) ?sigs)" 
    and w2: "0 \<le> start (scrollChapterRange (handleScroll 10 True False True (initialScroll 0)))"
    using i v s0 by blast+
  from window_invariant[of 10 0 ?bot "initialScroll 0" True True 0] b
  have w3: "scrollChapterRange (run 10 (initialScroll 0) ?bot)
            = \<lparr>start = 0, end = min (int (length (filter isBottomSignal ?bot))) 9\<rparr>"
    by blast
  show ?thesis using i v r b s0 w1 w2 w3 unfolding n by simp
qed

text \<open>
  Claim C6 as stated fails: the invariant does not hold in every reachable state. From
  the window \<open>{0,0}\<close> of a book of 10 chapters, a jump from the list of quotes to a quote
  whose chapter index is 12 (a quote kept from a longer book that was replaced) sets the
  window to \<open>{12,12}\<close>, beyond the last chapter; and the first window of a book with no
  chapter, \<open>{0,0}\<close>, is beyond \<open>chapterCount - 1 = -1\<close>.
\<close>

theorem window_jump_counterexample:
  "run 10 (initialScroll 0) [ProgressJump 12]
     = \<lparr>scrollChapterRange = \<lparr>start = 12, end = 12\<rparr>, rendered = \<lparr>start = 0, end = 0\<rparr>,
        prependLock = False\<rparr> \<and>
   \<not> windowInv 10 (run 10 (initialScroll 0) [ProgressJump 12]) \<and>
   \<not> windowInv 0 (initialScroll 0)"
  by (simp add: run_def initialScroll_def progressJump_def windowInv_def)

section \<open>EPUB ingestion (utils)\<close>

text \<open>
  The built-ins used by the parser. A \<open>Map\<close> is an association list in insertion
  order: \<open>set\<close> on a present key replaces the value in place, otherwise the pair is
  appended; \<open>get\<close> is the lookup. \<open>trim\<close> removes white space (the class of
  \<open>isWhiteSpace\<close>, which is also the white-space class of regular expressions) at both ends,
  \<open>jsIncludes\<close> is \<open>String.prototype.includes\<close>, and \<open>orEmpty a\<close> is
  \<open>a || ''\<close> for a string or \<open>null\<close>.
\<close>

fun mapSet :: "'k \<Rightarrow> 'v \<Rightarrow> ('k \<times> 'v) list \<Rightarrow> ('k \<times> 'v) list" where
  "mapSet k v [] = [(k, v)]"
| "mapSet k v ((k', v') # m) = (if k' = k then (k, v) # m else (k', v') # mapSet k v m)"

definition mapGet :: "('k \<times> 'v) list \<Rightarrow> 'k \<Rightarrow> 'v option" where
  "mapGet m k = map_of m k"

definition trim :: "jsstring \<Rightarrow> jsstring" where
  "trim s = rev (dropWhile isWhiteSpace (rev (dropWhile isWhiteSpace s)))"

fun jsIncludes :: "jsstring \<Rightarrow> jsstring \<Rightarrow> bool" where
  "jsIncludes [] sub = (sub = [])"
| "jsIncludes (c # cs) sub = (take (length sub) (c # cs) = sub \<or> jsIncludes cs sub)"

definition orEmpty :: "jsstring option \<Rightarrow> jsstring" where
  "orEmpty a = (case a of None \<Rightarrow> [] | Some s \<Rightarrow> s)"

text \<open>
  The parsed documents. \<open>DOMParser\<close> and the DOM queries belong to the browser; the
  model takes them as the record \<open>DomParser\<close> of functions from the text of an archive
  entry to what the queries of the source return on the parsed document: the
  \<open>full-path\<close> attribute of the first \<open>rootfile\<close> element (\<open>None\<close> without the element
  or the attribute); the \<open>textContent\<close> of the \<open>dc:title\<close> and \<open>title\<close> elements, the
  attributes of the \<open>item\<close> elements and the \<open>idref\<close> attributes of the \<open>itemref\<close>
  elements of the package document; for every \<open>navPoint\<close> the \<open>textContent\<close> of its
  \<open>text\<close> elements and the \<open>src\<close> attributes of its \<open>content\<close> elements; the
  \<open>href\<close> attribute and \<open>textContent\<close> of the anchors of a navigation document; and for a
  chapter the \<open>textContent\<close> of its \<open>p\<close> elements, of its \<open>div\<close> elements without a
  \<open>div\<close> inside, of its body (\<open>None\<close> without a body) and of its \<open>h1\<close> to \<open>h4\<close>
  elements, each in document order. The archive is the function \<open>archive\<close> from an
  entry name to the text of the entry (\<open>zip.file(name)\<close>, then \<open>async('text')\<close>).
\<close>

record ManifestEntry =
  href :: jsstring
  mediaType :: jsstring

record ItemEl =
  itemId :: "jsstring option"
  itemHref :: "jsstring option"
  itemMediaType :: "jsstring option"

record OpfDoc =
  dcTitles :: "jsstring list"
  titles :: "jsstring list"
  items :: "ItemEl list"
  itemrefs :: "jsstring option list"

record NavPoint =
  textEls :: "jsstring list"
  contentEls :: "jsstring option list"

record ChapterDoc =
  pElements :: "jsstring list"
  leafDivs :: "jsstring list"
  body :: "jsstring option"
  headings :: "jsstring list"

record DomParser =
  rootfileFullPath :: "jsstring \<Rightarrow> jsstring option"
  opfDoc :: "jsstring \<Rightarrow> OpfDoc"
  navPoints :: "jsstring \<Rightarrow> NavPoint list"
  navLinks :: "jsstring \<Rightarrow> (jsstring option \<times> jsstring) list"
  chapterDoc :: "jsstring \<Rightarrow> ChapterDoc"

text \<open>
  The result. The field \<open>paragraphs\<close> of \<open>Chapter\<close> carries a prime and the field
  \<open>title\<close> of the returned object is \<open>bookTitle\<close>, since a record cannot reuse a field
  name.
\<close>

record Chapter =
  title :: jsstring
  paragraphs' :: "jsstring list"
  wordCount :: nat

record ParsedBook =
  bookTitle :: jsstring
  chapters :: "Chapter list"

text \<open>
  \<open>extractParagraphs\<close>: the three tiers. \<open>nonEmptyTrimmed\<close> keeps the non-empty trimmed
  texts. The third tier splits the trimmed body text at runs of newlines; the pieces of a
  split at single newlines differ from those only by empty strings, which the tier drops.
\<close>

definition nonEmptyTrimmed :: "jsstring list \<Rightarrow> jsstring list" where
  "nonEmptyTrimmed ts = filter (\<lambda>t. t \<noteq> []) (map trim ts)"

definition extractParagraphs :: "ChapterDoc \<Rightarrow> jsstring list" where
  "extractParagraphs doc =
     (let ps = nonEmptyTrimmed (pElements doc) in
      if length ps \<noteq> 0 then ps
      else
        (let ds = nonEmptyTrimmed (leafDivs doc) in
         if length ds \<noteq> 0 then ds
         else
           (case body doc of
              None \<Rightarrow> []
            | Some bodyText \<Rightarrow>
                (let t = trim bodyText in
                 if t \<noteq> [] then nonEmptyTrimmed (jsSplit 0x0A t) else []))))"

text \<open>Steps 3 to 5 of \<open>parseEpub\<close>: the book title, the manifest map and the spine.\<close>

definition getBookTitle :: "OpfDoc \<Rightarrow> jsstring" where
  "getBookTitle doc =
     (case dcTitles doc of
        t # _ \<Rightarrow> if trim t \<noteq> [] then trim t else js ''Unknown''
      | [] \<Rightarrow> (case nonEmptyTrimmed (titles doc) of [] \<Rightarrow> js ''Unknown'' | t # _ \<Rightarrow> t))"

definition buildManifest :: "ItemEl list \<Rightarrow> (jsstring \<times> ManifestEntry) list" where
  "buildManifest its =
     foldl (\<lambda>m item. mapSet (orEmpty (itemId item))
                         \<lparr>href = orEmpty (itemHref item), mediaType = orEmpty (itemMediaType item)\<rparr> m)
           [] its"

definition getSpineIds :: "jsstring option list \<Rightarrow> jsstring list" where
  "getSpineIds refs = filter (\<lambda>idref. idref \<noteq> []) (map orEmpty refs)"

text \<open>
  Step 6: the map from href to title, from \<open>toc.ncx\<close> and, when that left the map empty,
  from the navigation document. Resolving the path of either can throw.
\<close>

definition tocFromNcx :: "NavPoint list \<Rightarrow> (jsstring \<times> jsstring) list" where
  "tocFromNcx nps =
     foldl (\<lambda>tocMap np.
              (case (textEls np, contentEls np) of
                 (t # _, c # _) \<Rightarrow>
                   (let label = trim t;
                        src = orEmpty c;
                        h = hd (jsSplit 0x23 src)
                    in if label \<noteq> [] \<and> h \<noteq> [] then mapSet h label tocMap else tocMap)
               | _ \<Rightarrow> tocMap))
           [] nps"

definition tocFromNav :: "(jsstring option \<times> jsstring) list \<Rightarrow> (jsstring \<times> jsstring) list" where
  "tocFromNav links =
     foldl (\<lambda>tocMap (hrefAttr, txt).
              (let h = hd (jsSplit 0x23 (orEmpty hrefAttr));
                   label = trim txt
               in if h \<noteq> [] \<and> label \<noteq> [] then mapSet h label tocMap else tocMap))
           [] links"

definition parseToc ::
  "DomParser \<Rightarrow> (jsstring \<Rightarrow> jsstring option) \<Rightarrow> jsstring \<Rightarrow> (jsstring \<times> ManifestEntry) list
     \<Rightarrow> jserror + (jsstring \<times> jsstring) list" where
  "parseToc parser archive opfPath manifestItems =
     (case (case find (\<lambda>(k, v). mediaType v = js ''application/x-dtbncx+xml'') manifestItems of
              None \<Rightarrow> Inr []
            | Some tocEntry \<Rightarrow>
                (case resolvePath opfPath (href (snd tocEntry)) of
                   Inl e \<Rightarrow> Inl e
                 | Inr tocPath \<Rightarrow>
                     (case archive tocPath of
                        None \<Rightarrow> Inr []
                      | Some tocContent \<Rightarrow> Inr (tocFromNcx (navPoints parser tocContent))))) of
        Inl e \<Rightarrow> Inl e
      | Inr tocMap \<Rightarrow>
          (case find (\<lambda>(k, v). jsIncludes (href v) (js ''nav'') \<and> jsIncludes (mediaType v) (js ''html''))
                  manifestItems of
             None \<Rightarrow> Inr tocMap
           | Some navEntry \<Rightarrow>
               if length tocMap = 0 then
                 (case resolvePath opfPath (href (snd navEntry)) of
                    Inl e \<Rightarrow> Inl e
                  | Inr navPath \<Rightarrow>
                      (case archive navPath of
                         None \<Rightarrow> Inr tocMap
                       | Some navContent \<Rightarrow> Inr (tocFromNav (navLinks parser navContent))))
               else Inr tocMap))"

text \<open>
  Step 7. \<open>getChapterTitle\<close> is the title of a chapter: from the map by the raw href,
  else by the decoded href (decoding can throw), else the first non-empty heading, else
  the template literal of the source, which is the two characters U+7AE0 U+8282, a space
  and \<open>chapters.length + 1\<close> in decimal (an array length is a natural number below
  \<open>2 ^ 32\<close>, which the template prints as its decimal digits). \<open>parseChapter\<close> is the body of the loop over the
  spine: \<open>Inr None\<close> is \<open>continue\<close>, \<open>Inr (Some ch)\<close> pushes the chapter \<open>ch\<close>, and
  \<open>Inl\<close> is an exception, which ends \<open>parseEpub\<close>. \<open>parseChapters\<close> is the loop.
\<close>

definition syntheticTitle :: "nat \<Rightarrow> jsstring" where
  "syntheticTitle n = [0x7AE0, 0x8282, 0x20] @ digitsOf n"

definition getChapterTitle ::
  "(jsstring \<times> jsstring) list \<Rightarrow> ManifestEntry \<Rightarrow> ChapterDoc \<Rightarrow> nat \<Rightarrow> jserror + jsstring" where
  "getChapterTitle tocMap item doc chaptersLength =
     (case (if orEmpty (mapGet tocMap (href item)) \<noteq> [] then Inr (orEmpty (mapGet tocMap (href item)))
            else (case decodeURIComponent (href item) of
                    Inl e \<Rightarrow> Inl e
                  | Inr decoded \<Rightarrow> Inr (orEmpty (mapGet tocMap decoded)))) of
        Inl e \<Rightarrow> Inl e
      | Inr t0 \<Rightarrow>
          (let t1 = (if t0 = [] then (case nonEmptyTrimmed (headings doc) of [] \<Rightarrow> [] | h # _ \<Rightarrow> h)
                     else t0)
           in Inr (if t1 = [] then syntheticTitle (chaptersLength + 1) else t1)))"

definition parseChapter ::
  "DomParser \<Rightarrow> (jsstring \<Rightarrow> jsstring option) \<Rightarrow> jsstring \<Rightarrow> (jsstring \<times> ManifestEntry) list
     \<Rightarrow> (jsstring \<times> jsstring) list \<Rightarrow> jsstring \<Rightarrow> nat \<Rightarrow> jserror + Chapter option" where
  "parseChapter parser archive opfPath manifestItems tocMap spineId chaptersLength =
     (case mapGet manifestItems spineId of
        None \<Rightarrow> Inr None
      | Some item \<Rightarrow>
          if \<not> jsIncludes (mediaType item) (js ''html'') \<and> \<not> jsIncludes (mediaType item) (js ''xml'')
          then Inr None
          else
            (case resolvePath opfPath (href item) of
               Inl e \<Rightarrow> Inl e
             | Inr chapterPath \<Rightarrow>
                 (case archive chapterPath of
                    None \<Rightarrow> Inr None
                  | Some content \<Rightarrow>
                      (let doc = chapterDoc parser content;
                           ps = extractParagraphs doc
                       in if length ps = 0 then Inr None
                          else
                            (case getChapterTitle tocMap item doc chaptersLength of
                               Inl e \<Rightarrow> Inl e
                             | Inr t \<Rightarrow>
                                 Inr (Some \<lparr>title = t, paragraphs' = ps,
                                            wordCount = length (filter (\<lambda>c. \<not> isWhiteSpace c)
                                                                  (concat ps))\<rparr>))))))"

fun parseChapters ::
  "DomParser \<Rightarrow> (jsstring \<Rightarrow> jsstring option) \<Rightarrow> jsstring \<Rightarrow> (jsstring \<times> ManifestEntry) list
     \<Rightarrow> (jsstring \<times> jsstring) list \<Rightarrow> jsstring list \<Rightarrow> Chapter list \<Rightarrow> jserror + Chapter list" where
  "parseChapters parser archive opfPath manifestItems tocMap [] chs = Inr chs"
| "parseChapters parser archive opfPath manifestItems tocMap (spineId # spineIds) chs =
     (case parseChapter parser archive opfPath manifestItems tocMap spineId (length chs) of
        Inl e \<Rightarrow> Inl e
      | Inr None \<Rightarrow> parseChapters parser archive opfPath manifestItems tocMap spineIds chs
      | Inr (Some ch) \<Rightarrow> parseChapters parser archive opfPath manifestItems tocMap spineIds (chs @ [ch]))"

text \<open>\<open>parseEpub\<close>, from the loaded archive on.\<close>

definition parseEpub :: "DomParser \<Rightarrow> (jsstring \<Rightarrow> jsstring option) \<Rightarrow> jserror + ParsedBook" where
  "parseEpub parser archive =
     (case archive (js ''META-INF/container.xml'') of
        None \<Rightarrow> Inl (Error ''Invalid EPUB: missing container.xml'')
      | Some containerXml \<Rightarrow>
          (let opfPath = orEmpty (rootfileFullPath parser containerXml) in
           if opfPath = [] then Inl (Error ''Invalid EPUB: cannot find OPF path'')
           else
             (case archive opfPath of
                None \<Rightarrow> Inl (Error ''Invalid EPUB: missing OPF file'')
              | Some opfContent \<Rightarrow>
                  (let doc = opfDoc parser opfContent;
                       manifestItems = buildManifest (items doc);
                       spineIds = getSpineIds (itemrefs doc)
                   in case parseToc parser archive opfPath manifestItems of
                        Inl e \<Rightarrow> Inl e
                      | Inr tocMap \<Rightarrow>
                          (case parseChapters parser archive opfPath manifestItems tocMap spineIds [] of
                             Inl e \<Rightarrow> Inl e
                           | Inr chs \<Rightarrow> Inr \<lparr>bookTitle = getBookTitle doc, chapters = chs\<rparr>)))))"

text \<open>
  A parser and an archive for concrete runs: the package document lists the given items
  and spine, there is no navigation document, and the text of a chapter file is its
  single paragraph.
\<close>


definition demoItem :: "string \<Rightarrow> string \<Rightarrow> string \<Rightarrow> ItemEl" where
  "demoItem i h m = \<lparr>itemId = Some (js i), itemHref = Some (js h), itemMediaType = Some (js m)\<rparr>"

definition demoParser :: "ItemEl list \<Rightarrow> string list \<Rightarrow> DomParser" where
  "demoParser its spine =
     \<lparr>rootfileFullPath = (\<lambda>containerXml. Some (js ''OEBPS/content.opf'')),
      opfDoc = (\<lambda>opfContent. \<lparr>dcTitles = [js ''Book''], titles = [], items = its,
                                itemrefs = map (\<lambda>i. Some (js i)) spine\<rparr>),
      navPoints = (\<lambda>tocContent. []),
      navLinks = (\<lambda>navContent. []),
      chapterDoc = (\<lambda>content. \<lparr>pElements = [content], leafDivs = [], body = None,
                                 headings = []\<rparr>)\<rparr>"

definition demoArchive :: "(string \<times> string) list \<Rightarrow> jsstring \<Rightarrow> jsstring option" where
  "demoArchive files path = map_of (map (\<lambda>(p, c). (js p, js c)) files) path"

subsection \<open>Notions used to state the properties of ingestion\<close>

text \<open>
  Written from the specification: the archive is malformed when its fixed entry point is
  absent, or does not reference a package-document path, or the referenced package
  document is absent.
\<close>

definition malformedArchive :: "DomParser \<Rightarrow> (jsstring \<Rightarrow> jsstring option) \<Rightarrow> bool" where
  "malformedArchive parser archive =
     (case archive (js ''META-INF/container.xml'') of
        None \<Rightarrow> True
      | Some containerXml \<Rightarrow>
          (case rootfileFullPath parser containerXml of
             None \<Rightarrow> True
           | Some opfPath \<Rightarrow> opfPath = [] \<or> archive opfPath = None))"

text \<open>
  Written from the specification: the spine-level problems that are soft skips. The id
  is missing from the manifest; the media type is neither markup nor XML; the chapter
  file is absent from the archive; all extraction tiers are empty.
\<close>

definition softSkip ::
  "DomParser \<Rightarrow> (jsstring \<Rightarrow> jsstring option) \<Rightarrow> jsstring \<Rightarrow> (jsstring \<times> ManifestEntry) list
     \<Rightarrow> jsstring \<Rightarrow> bool" where
  "softSkip parser archive opfPath manifestItems spineId =
     (case mapGet manifestItems spineId of
        None \<Rightarrow> True
      | Some item \<Rightarrow>
          (\<not> jsIncludes (mediaType item) (js ''html'') \<and> \<not> jsIncludes (mediaType item) (js ''xml''))
          \<or> (case resolvePath opfPath (href item) of
                Inl e \<Rightarrow> False
              | Inr chapterPath \<Rightarrow>
                  (case archive chapterPath of
                     None \<Rightarrow> True
                   | Some content \<Rightarrow> extractParagraphs (chapterDoc parser content) = [])))"

text \<open>
  Percent-decoding a string succeeds (\<open>decodeURIComponent\<close> does not throw on it); it
  succeeds on every href of a list of items, and on every href of a manifest.
\<close>

definition decodes :: "jsstring \<Rightarrow> bool" where
  "decodes s = (case decodeURIComponent s of Inl e \<Rightarrow> False | Inr decoded \<Rightarrow> True)"

definition hrefsDecode :: "ItemEl list \<Rightarrow> bool" where
  "hrefsDecode its = list_all (\<lambda>item. decodes (orEmpty (itemHref item))) its"

definition manifestDecodes :: "(jsstring \<times> ManifestEntry) list \<Rightarrow> bool" where
  "manifestDecodes m = list_all (\<lambda>(k, v). decodes (href v)) m"

text \<open>
  A concrete book: the spine names an id that the manifest lacks, an image, a chapter
  whose file is absent and two chapters without a title.
\<close>

definition demoItems :: "ItemEl list" where
  "demoItems = [demoItem ''c1'' ''one.xhtml'' ''application/xhtml+xml'',
                demoItem ''c2'' ''two.xhtml'' ''application/xhtml+xml'',
                demoItem ''c3'' ''three.xhtml'' ''application/xhtml+xml'',
                demoItem ''img'' ''x.png'' ''image/png'']"

definition demoFiles :: "(string \<times> string) list" where
  "demoFiles = [(''META-INF/container.xml'', ''''), (''OEBPS/content.opf'', ''''),
                (''OEBPS/two.xhtml'', ''Second one''), (''OEBPS/three.xhtml'', ''Third''),
                (''OEBPS/x.png'', ''png'')]"

text \<open>
  A second concrete book, with every spine-level problem and an escaped href: the spine
  names an id that the manifest lacks, an image, a chapter whose file is absent, a
  chapter whose text is blank, and a chapter whose href \<open>ch%201.xhtml\<close> decodes to the
  name of its file.
\<close>

definition escapedItems :: "ItemEl list" where
  "escapedItems = [demoItem ''c1'' ''ch%201.xhtml'' ''application/xhtml+xml'',
                   demoItem ''c2'' ''two.xhtml'' ''application/xhtml+xml'',
                   demoItem ''c3'' ''gone.xhtml'' ''application/xhtml+xml'',
                   demoItem ''img'' ''x.png'' ''image/png'']"

definition escapedFiles :: "(string \<times> string) list" where
  "escapedFiles = [(''META-INF/container.xml'', ''''), (''OEBPS/content.opf'', ''''),
                   (''OEBPS/ch 1.xhtml'', ''First''), (''OEBPS/two.xhtml'', ''   ''),
                   (''OEBPS/x.png'', ''png'')]"

subsection \<open>Properties of ingestion\<close>

lemma resolvePath_error: "resolvePath base relative = Inl e \<Longrightarrow> e = URIError"
  by (auto simp: resolvePath_def Let_def decodeURIComponent_def
           split: if_splits sum.splits option.splits)

lemma resolvePath_decodes:
  "decodes relative \<Longrightarrow> \<exists>r. resolvePath base relative = Inr r"
  by (auto simp: resolvePath_def decodes_def Let_def split: sum.splits)

lemma parseToc_error: "parseToc parser archive opfPath m = Inl e \<Longrightarrow> e = URIError"
  by (auto simp: parseToc_def split: option.splits sum.splits if_splits
           dest: resolvePath_error)

lemma getChapterTitle_error:
  "getChapterTitle tocMap item doc n = Inl e \<Longrightarrow> e = URIError"
  by (auto simp: getChapterTitle_def Let_def split: sum.splits if_splits
           dest: decodeURIComponent_error)

lemma parseChapter_error:
  "parseChapter parser archive opfPath m tocMap spineId n = Inl e \<Longrightarrow> e = URIError"
  by (auto simp: parseChapter_def Let_def split: option.splits sum.splits if_splits
           dest: resolvePath_error getChapterTitle_error)

lemma parseChapters_error:
  "parseChapters parser archive opfPath m tocMap ids acc = Inl e \<Longrightarrow> e = URIError"
  by (induction ids arbitrary: acc)
     (auto split: sum.splits option.splits dest: parseChapter_error)

lemma parseEpub_Error_iff:
  "(\<exists>msg. parseEpub parser archive = Inl (Error msg)) = malformedArchive parser archive"
proof -
  have toc: "\<And>opfPath m msg. parseToc parser archive opfPath m \<noteq> Inl (Error msg)"
    using parseToc_error by fastforce
  have chs: "\<And>opfPath m t ids acc msg.
      parseChapters parser archive opfPath m t ids acc \<noteq> Inl (Error msg)"
    using parseChapters_error by fastforce
  show ?thesis
    using toc chs
    by (auto simp: parseEpub_def malformedArchive_def orEmpty_def Let_def
             split: option.splits sum.splits)
qed

lemma parseEpub_error_cases:
  "parseEpub parser archive = Inl e \<Longrightarrow> e = URIError \<or> malformedArchive parser archive"
  using parseEpub_Error_iff[of parser archive] by (cases e) auto

lemma softSkip_parseChapter:
  "softSkip parser archive opfPath m spineId \<Longrightarrow>
   parseChapter parser archive opfPath m tocMap spineId n = Inr None"
  by (auto simp: softSkip_def parseChapter_def Let_def split: option.splits sum.splits)

lemma parseChapters_skip:
  "parseChapters parser archive opfPath m tocMap
      (filter (\<lambda>i. \<not> softSkip parser archive opfPath m i) ids) acc
   = parseChapters parser archive opfPath m tocMap ids acc"
proof (induction ids arbitrary: acc)
  case Nil
  show ?case by simp
next
  case (Cons i ids)
  show ?case
  proof (cases "softSkip parser archive opfPath m i")
    case True
    then show ?thesis using Cons by (simp add: softSkip_parseChapter)
  next
    case False
    then show ?thesis using Cons
      by (cases "parseChapter parser archive opfPath m tocMap i (length acc)")
         (simp_all split: option.splits)
  qed
qed

lemma mapSet_subset: "set (mapSet k v m) \<subseteq> insert (k, v) (set m)"
  by (induction m) (auto split: if_splits)

lemma buildManifest_hrefs:
  "(k, v) \<in> set (buildManifest its) \<Longrightarrow> \<exists>item \<in> set its. href v = orEmpty (itemHref item)"
proof -
  have "\<And>m0. (k, v) \<in> set (foldl (\<lambda>m item. mapSet (orEmpty (itemId item))
                         \<lparr>href = orEmpty (itemHref item), mediaType = orEmpty (itemMediaType item)\<rparr> m)
           m0 its) \<Longrightarrow> (k, v) \<in> set m0 \<or> (\<exists>item \<in> set its. href v = orEmpty (itemHref item))"
  proof (induction its)
    case Nil
    then show ?case by simp
  next
    case (Cons a its)
    from Cons.IH[OF Cons.prems[simplified]] show ?case
      using mapSet_subset[of "orEmpty (itemId a)"
          "\<lparr>href = orEmpty (itemHref a), mediaType = orEmpty (itemMediaType a)\<rparr>" m0]
      by auto
  qed
  then show "(k, v) \<in> set (buildManifest its) \<Longrightarrow> ?thesis"
    unfolding buildManifest_def by fastforce
qed

lemma hrefsDecode_manifest: "hrefsDecode its \<Longrightarrow> manifestDecodes (buildManifest its)"
  unfolding manifestDecodes_def hrefsDecode_def list_all_iff
  using buildManifest_hrefs by fastforce

lemma find_decodes:
  "manifestDecodes m \<Longrightarrow> find P m = Some e \<Longrightarrow> decodes (href (snd e))"
proof -
  assume pm: "manifestDecodes m" and f: "find P m = Some e"
  from f have "e \<in> set m" by (auto simp: find_Some_iff)
  with pm show ?thesis by (cases e) (auto simp: manifestDecodes_def list_all_iff)
qed

lemma mapGet_decodes:
  "manifestDecodes m \<Longrightarrow> mapGet m k = Some item \<Longrightarrow> decodes (href item)"
  by (auto simp: manifestDecodes_def list_all_iff mapGet_def dest!: map_of_SomeD)

lemma resolve_then_read:
  assumes "decodes h"
  shows "\<exists>t. (case resolvePath opfPath h of
                Inl e \<Rightarrow> Inl e
              | Inr p \<Rightarrow> (case archive p of None \<Rightarrow> Inr a | Some c \<Rightarrow> Inr (f c)))
             = (Inr t :: jserror + 'x)"
proof -
  obtain r where "resolvePath opfPath h = Inr r" using resolvePath_decodes[OF assms] by blast
  then show ?thesis by (cases "archive r") simp_all
qed

lemma parseToc_decodes:
  assumes "manifestDecodes m"
  shows "\<exists>t. parseToc parser archive opfPath m = Inr t"
proof -
  let ?ncx = "find (\<lambda>(k, v). mediaType v = js ''application/x-dtbncx+xml'') m"
  let ?nav = "find (\<lambda>(k, v). jsIncludes (href v) (js ''nav'') \<and> jsIncludes (mediaType v) (js ''html'')) m"
  have "\<exists>t1. (case ?ncx of
              None \<Rightarrow> Inr []
            | Some tocEntry \<Rightarrow>
                (case resolvePath opfPath (href (snd tocEntry)) of
                   Inl e \<Rightarrow> Inl e
                 | Inr tocPath \<Rightarrow>
                     (case archive tocPath of
                        None \<Rightarrow> Inr []
                      | Some tocContent \<Rightarrow> Inr (tocFromNcx (navPoints parser tocContent)))))
          = (Inr t1 :: jserror + (jsstring \<times> jsstring) list)"
  proof (cases ?ncx)
    case None
    then show ?thesis by simp
  next
    case (Some tocEntry)
    from resolve_then_read[OF find_decodes[OF assms Some]] Some show ?thesis by simp
  qed
  then obtain t1 where t1: "(case ?ncx of
              None \<Rightarrow> Inr []
            | Some tocEntry \<Rightarrow>
                (case resolvePath opfPath (href (snd tocEntry)) of
                   Inl e \<Rightarrow> Inl e
                 | Inr tocPath \<Rightarrow>
                     (case archive tocPath of
                        None \<Rightarrow> Inr []
                      | Some tocContent \<Rightarrow> Inr (tocFromNcx (navPoints parser tocContent)))))
          = (Inr t1 :: jserror + (jsstring \<times> jsstring) list)" by blast
  show ?thesis
  proof (cases ?nav)
    case None
    then show ?thesis unfolding parseToc_def t1 by simp
  next
    case (Some navEntry)
    show ?thesis
    proof (cases "length t1 = 0")
      case False
      with Some show ?thesis unfolding parseToc_def t1 by simp
    next
      case True
      from resolve_then_read[OF find_decodes[OF assms Some]] Some True
      show ?thesis unfolding parseToc_def t1 by simp
    qed
  qed
qed

lemma getChapterTitle_decodes:
  "decodes (href item) \<Longrightarrow> \<exists>t. getChapterTitle tocMap item doc n = Inr t"
  by (auto simp: getChapterTitle_def decodes_def Let_def split: sum.splits)

lemma parseChapter_kept:
  assumes "manifestDecodes m"
      and "\<not> softSkip parser archive opfPath m spineId"
  shows "\<exists>ch. parseChapter parser archive opfPath m tocMap spineId n = Inr (Some ch)"
proof -
  obtain item where item: "mapGet m spineId = Some item"
    using assms(2) by (auto simp: softSkip_def split: option.splits)
  have media: "\<not> (\<not> jsIncludes (mediaType item) (js ''html'') \<and> \<not> jsIncludes (mediaType item) (js ''xml''))"
    using assms(2) item by (auto simp: softSkip_def)
  have p: "decodes (href item)" by (rule mapGet_decodes[OF assms(1) item])
  obtain r where r: "resolvePath opfPath (href item) = Inr r"
    using resolvePath_decodes[OF p] by blast
  obtain content where content: "archive r = Some content"
      and ps: "extractParagraphs (chapterDoc parser content) \<noteq> []"
    using assms(2) item media r by (auto simp: softSkip_def split: option.splits)
  obtain t where t: "getChapterTitle tocMap item (chapterDoc parser content) n = Inr t"
    using getChapterTitle_decodes[OF p] by blast
  show ?thesis using item media r content ps t
    by (simp add: parseChapter_def Let_def)
qed

lemma parseChapters_kept:
  assumes "manifestDecodes m"
  shows "list_all (\<lambda>i. \<not> softSkip parser archive opfPath m i) ids \<Longrightarrow>
         \<exists>cs. parseChapters parser archive opfPath m tocMap ids acc = Inr cs \<and>
              length cs = length acc + length ids"
proof (induction ids arbitrary: acc)
  case Nil
  show ?case by simp
next
  case (Cons i ids)
  then have k: "\<not> softSkip parser archive opfPath m i"
      and rest: "list_all (\<lambda>i. \<not> softSkip parser archive opfPath m i) ids" by simp_all
  obtain ch where ch: "parseChapter parser archive opfPath m tocMap i (length acc) = Inr (Some ch)"
    using parseChapter_kept[OF assms k] by blast
  from Cons.IH[OF rest, of "acc @ [ch]"] ch show ?case by simp
qed

lemma parseEpub_decodes:
  assumes "archive (js ''META-INF/container.xml'') = Some containerXml"
      and "rootfileFullPath parser containerXml = Some opfPath"
      and "opfPath \<noteq> []"
      and "archive opfPath = Some opfContent"
      and "hrefsDecode (items (opfDoc parser opfContent))"
  shows "\<exists>tocMap chs.
           parseToc parser archive opfPath (buildManifest (items (opfDoc parser opfContent)))
             = Inr tocMap \<and>
           parseChapters parser archive opfPath (buildManifest (items (opfDoc parser opfContent)))
               tocMap
               (filter (\<lambda>i. \<not> softSkip parser archive opfPath
                                 (buildManifest (items (opfDoc parser opfContent))) i)
                  (getSpineIds (itemrefs (opfDoc parser opfContent)))) []
             = Inr chs \<and>
           length chs
             = length (filter (\<lambda>i. \<not> softSkip parser archive opfPath
                                        (buildManifest (items (opfDoc parser opfContent))) i)
                         (getSpineIds (itemrefs (opfDoc parser opfContent)))) \<and>
           parseEpub parser archive
             = Inr \<lparr>bookTitle = getBookTitle (opfDoc parser opfContent), chapters = chs\<rparr>"
proof -
  define m where "m = buildManifest (items (opfDoc parser opfContent))"
  define kept where "kept = filter (\<lambda>i. \<not> softSkip parser archive opfPath m i)
                               (getSpineIds (itemrefs (opfDoc parser opfContent)))"
  have pm: "manifestDecodes m" unfolding m_def by (rule hrefsDecode_manifest[OF assms(5)])
  obtain t where t: "parseToc parser archive opfPath m = Inr t"
    using parseToc_decodes[OF pm] by blast
  have "list_all (\<lambda>i. \<not> softSkip parser archive opfPath m i) kept"
    by (simp add: kept_def list_all_iff)
  from parseChapters_kept[OF pm this, of t "[]"]
  obtain cs where cs: "parseChapters parser archive opfPath m t kept [] = Inr cs"
      and len: "length cs = length kept" by auto
  have all: "parseChapters parser archive opfPath m t
               (getSpineIds (itemrefs (opfDoc parser opfContent))) [] = Inr cs"
    using cs parseChapters_skip[of parser archive opfPath m t
        "getSpineIds (itemrefs (opfDoc parser opfContent))" "[]"]
    unfolding kept_def by simp
  have "parseEpub parser archive
          = Inr \<lparr>bookTitle = getBookTitle (opfDoc parser opfContent), chapters = cs\<rparr>"
    using assms(1,2,3,4) t all unfolding m_def
    by (simp add: parseEpub_def orEmpty_def Let_def)
  with t cs len show ?thesis unfolding m_def kept_def by blast
qed

text \<open>
  Claim C5, as amended. \<open>parseEpub\<close> fails with an \<open>Invalid EPUB\<close> error exactly when
  the archive is malformed (entry point absent, no package-document path, package
  document absent). Its only other failure is the \<open>URIError\<close> of percent-decoding an
  href. When the archive is not malformed and every href of the package document
  percent-decodes, ingestion returns the book: its chapters are those the loop builds
  from the spine items that are no soft skips, one chapter for each of them. Every
  spine-level problem is a soft skip: the loop body contributes no chapter, and the loop
  gives the same result as on the spine without the skipped items.
\<close>

theorem parseEpub_failures:
  "((\<exists>msg. parseEpub parser archive = Inl (Error msg)) = malformedArchive parser archive) \<and>
   (parseEpub parser archive = Inl e \<longrightarrow> e = URIError \<or> malformedArchive parser archive) \<and>
   (archive (js ''META-INF/container.xml'') = Some containerXml \<and>
    rootfileFullPath parser containerXml = Some opfPath \<and> opfPath \<noteq> [] \<and>
    archive opfPath = Some opfContent \<and>
    hrefsDecode (items (opfDoc parser opfContent)) \<longrightarrow>
      (\<exists>tocMap chs.
           parseToc parser archive opfPath (buildManifest (items (opfDoc parser opfContent)))
             = Inr tocMap \<and>
           parseChapters parser archive opfPath (buildManifest (items (opfDoc parser opfContent)))
               tocMap
               (filter (\<lambda>i. \<not> softSkip parser archive opfPath
                                 (buildManifest (items (opfDoc parser opfContent))) i)
                  (getSpineIds (itemrefs (opfDoc parser opfContent)))) []
             = Inr chs \<and>
           length chs
             = length (filter (\<lambda>i. \<not> softSkip parser archive opfPath
                                        (buildManifest (items (opfDoc parser opfContent))) i)
                         (getSpineIds (itemrefs (opfDoc parser opfContent)))) \<and>
           parseEpub parser archive
             = Inr \<lparr>bookTitle = getBookTitle (opfDoc parser opfContent), chapters = chs\<rparr>)) \<and>
   (softSkip parser archive base m spineId
      \<longrightarrow> parseChapter parser archive base m toc spineId n = Inr None) \<and>
   parseChapters parser archive base m toc
       (filter (\<lambda>i. \<not> softSkip parser archive base m i) spineIds) acc
     = parseChapters parser archive base m toc spineIds acc"
proof (intro conjI impI)
  show "(\<exists>msg. parseEpub parser archive = Inl (Error msg)) = malformedArchive parser archive"
    by (rule parseEpub_Error_iff)
next
  assume "parseEpub parser archive = Inl e"
  then show "e = URIError \<or> malformedArchive parser archive" by (rule parseEpub_error_cases)
next
  assume "softSkip parser archive base m spineId"
  then show "parseChapter parser archive base m toc spineId n = Inr None"
    by (rule softSkip_parseChapter)
next
  show "parseChapters parser archive base m toc
       (filter (\<lambda>i. \<not> softSkip parser archive base m i) spineIds) acc
     = parseChapters parser archive base m toc spineIds acc"
    by (rule parseChapters_skip)
next
  assume a: "archive (js ''META-INF/container.xml'') = Some containerXml \<and>
    rootfileFullPath parser containerXml = Some opfPath \<and> opfPath \<noteq> [] \<and>
    archive opfPath = Some opfContent \<and>
    hrefsDecode (items (opfDoc parser opfContent))"
  show "\<exists>tocMap chs.
           parseToc parser archive opfPath (buildManifest (items (opfDoc parser opfContent)))
             = Inr tocMap \<and>
           parseChapters parser archive opfPath (buildManifest (items (opfDoc parser opfContent)))
               tocMap
               (filter (\<lambda>i. \<not> softSkip parser archive opfPath
                                 (buildManifest (items (opfDoc parser opfContent))) i)
                  (getSpineIds (itemrefs (opfDoc parser opfContent)))) []
             = Inr chs \<and>
           length chs
             = length (filter (\<lambda>i. \<not> softSkip parser archive opfPath
                                        (buildManifest (items (opfDoc parser opfContent))) i)
                         (getSpineIds (itemrefs (opfDoc parser opfContent)))) \<and>
           parseEpub parser archive
             = Inr \<lparr>bookTitle = getBookTitle (opfDoc parser opfContent), chapters = chs\<rparr>"
    using a by (intro parseEpub_decodes[of archive containerXml parser opfPath opfContent]) simp_all
qed

lemma demo_run:
  "parseEpub (demoParser demoItems [''c0'', ''img'', ''c1'', ''c2'', ''c3'']) (demoArchive demoFiles)
   = Inr \<lparr>bookTitle = js ''Book'',
          chapters = [\<lparr>title = [0x7AE0, 0x8282, 0x20, 0x31], paragraphs' = [js ''Second one''],
                       wordCount = 9\<rparr>,
                      \<lparr>title = [0x7AE0, 0x8282, 0x20, 0x32], paragraphs' = [js ''Third''],
                       wordCount = 5\<rparr>]\<rparr>"
  by code_simp

text \<open>
  A concrete run of C5 on the second book: four of the five spine items are soft skips,
  the href of the fifth decodes, and ingestion returns the one chapter.
\<close>

theorem parseEpub_failures_witness:
  "demoArchive escapedFiles (js ''META-INF/container.xml'') = Some [] \<and>
   rootfileFullPath (demoParser escapedItems [''c0'', ''img'', ''c3'', ''c2'', ''c1'']) []
     = Some (js ''OEBPS/content.opf'') \<and>
   js ''OEBPS/content.opf'' \<noteq> [] \<and>
   demoArchive escapedFiles (js ''OEBPS/content.opf'') = Some [] \<and>
   hrefsDecode (items (opfDoc (demoParser escapedItems [''c0'', ''img'', ''c3'', ''c2'', ''c1'']) [])) \<and>
   \<not> malformedArchive (demoParser escapedItems [''c0'', ''img'', ''c3'', ''c2'', ''c1''])
       (demoArchive escapedFiles) \<and>
   parseEpub (demoParser escapedItems [''c0'', ''img'', ''c3'', ''c2'', ''c1'']) (demoArchive escapedFiles)
     = Inr \<lparr>bookTitle = js ''Book'',
            chapters = [\<lparr>title = [0x7AE0, 0x8282, 0x20, 0x31], paragraphs' = [js ''First''],
                         wordCount = 5\<rparr>]\<rparr> \<and>
   filter (\<lambda>i. \<not> softSkip (demoParser escapedItems [''c0'', ''img'', ''c3'', ''c2'', ''c1''])
                   (demoArchive escapedFiles) (js ''OEBPS/content.opf'') (buildManifest escapedItems) i)
     [js ''c0'', js ''img'', js ''c3'', js ''c2'', js ''c1''] = [js ''c1''] \<and>
   softSkip (demoParser escapedItems [''c0'', ''img'', ''c3'', ''c2'', ''c1'']) (demoArchive escapedFiles)
     (js ''OEBPS/content.opf'') (buildManifest escapedItems) (js ''c2'') \<and>
   parseChapter (demoParser escapedItems [''c0'', ''img'', ''c3'', ''c2'', ''c1'']) (demoArchive escapedFiles)
     (js ''OEBPS/content.opf'') (buildManifest escapedItems) [] (js ''c2'') 0 = Inr None"
proof -
  let ?P = "demoParser escapedItems [''c0'', ''img'', ''c3'', ''c2'', ''c1'']"
  let ?A = "demoArchive escapedFiles"
  have a1: "?A (js ''META-INF/container.xml'') = Some []" by code_simp
  have a2: "rootfileFullPath ?P [] = Some (js ''OEBPS/content.opf'')"
    by (simp add: demoParser_def)
  have a3: "js ''OEBPS/content.opf'' \<noteq> []" by (simp add: js_def)
  have a4: "?A (js ''OEBPS/content.opf'') = Some []" by code_simp
  have a5: "hrefsDecode (items (opfDoc ?P []))" by code_simp
  have m: "\<not> malformedArchive ?P ?A" by code_simp
  have c: "softSkip ?P ?A (js ''OEBPS/content.opf'') (buildManifest escapedItems) (js ''c2'')"
    by code_simp
  have r: "parseEpub ?P ?A
     = Inr \<lparr>bookTitle = js ''Book'',
            chapters = [\<lparr>title = [0x7AE0, 0x8282, 0x20, 0x31], paragraphs' = [js ''First''],
                         wordCount = 5\<rparr>]\<rparr>"
    by code_simp
  have d: "filter (\<lambda>i. \<not> softSkip ?P ?A (js ''OEBPS/content.opf'') (buildManifest escapedItems) i)
     [js ''c0'', js ''img'', js ''c3'', js ''c2'', js ''c1''] = [js ''c1'']"
    by code_simp
  note t = parseEpub_failures[of ?P ?A URIError "[]" "js ''OEBPS/content.opf''" "[]"
      "js ''OEBPS/content.opf''" "buildManifest escapedItems" "js ''c2''" "[]" 0
      "[js ''c0'', js ''img'', js ''c3'', js ''c2'', js ''c1'']" "[]"]
  from t c have s: "parseChapter ?P ?A (js ''OEBPS/content.opf'') (buildManifest escapedItems) []
      (js ''c2'') 0 = Inr None" by blast
  from t a1 a2 a3 a4 a5 have "\<exists>chs. parseEpub ?P ?A
      = Inr \<lparr>bookTitle = getBookTitle (opfDoc ?P []), chapters = chs\<rparr>" by blast
  with a1 a2 a3 a4 a5 m r d c s show ?thesis by blast
qed

text \<open>
  Claim C5 as stated fails: the archive below has its entry point, its package-document
  path and its package document, the first spine id is missing from the manifest (a
  soft skip), and the href of the second is \<open>100%.xhtml\<close>. Resolving that href throws
  \<open>URIError\<close>, nothing catches it, and ingestion returns no chapter list.
\<close>

theorem parseEpub_URIError_counterexample:
  "\<not> malformedArchive
       (demoParser [demoItem ''c1'' ''100%.xhtml'' ''application/xhtml+xml''] [''c0'', ''c1''])
       (demoArchive [(''META-INF/container.xml'', ''''), (''OEBPS/content.opf'', '''')]) \<and>
   parseEpub
       (demoParser [demoItem ''c1'' ''100%.xhtml'' ''application/xhtml+xml''] [''c0'', ''c1''])
       (demoArchive [(''META-INF/container.xml'', ''''), (''OEBPS/content.opf'', '''')])
     = Inl URIError"
  by code_simp

text \<open>
  Claim C7, as amended. When a spine item is accepted (it is in the manifest, its media
  type is markup or XML, its file is in the archive and yields paragraphs) and its title
  is found neither in the TOC map by the raw href nor by the percent-decoded href, nor as
  the non-empty text of a heading, the loop appends a chapter whose title is the
  characters U+7AE0 U+8282, a space and the decimal digits of one more than the number of
  chapters accepted so far: the number counts kept chapters, not spine positions.
\<close>

theorem synthesized_chapter_title:
  assumes "mapGet m spineId = Some item"
      and "jsIncludes (mediaType item) (js ''html'') \<or> jsIncludes (mediaType item) (js ''xml'')"
      and "resolvePath opfPath (href item) = Inr chapterPath"
      and "archive chapterPath = Some content"
      and "extractParagraphs (chapterDoc parser content) \<noteq> []"
      and "orEmpty (mapGet tocMap (href item)) = []"
      and "decodeURIComponent (href item) = Inr decoded"
      and "orEmpty (mapGet tocMap decoded) = []"
      and "nonEmptyTrimmed (headings (chapterDoc parser content)) = []"
  shows "parseChapters parser archive opfPath m tocMap (spineId # spineIds) chs
         = parseChapters parser archive opfPath m tocMap spineIds
             (chs @ [\<lparr>title = [0x7AE0, 0x8282, 0x20] @ digitsOf (length chs + 1),
                      paragraphs' = extractParagraphs (chapterDoc parser content),
                      wordCount = length (filter (\<lambda>c. \<not> isWhiteSpace c)
                                    (concat (extractParagraphs (chapterDoc parser content))))\<rparr>])"
proof -
  have t: "getChapterTitle tocMap item (chapterDoc parser content) (length chs)
           = Inr ([0x7AE0, 0x8282, 0x20] @ digitsOf (length chs + 1))"
  proof -
    have n: "nat (1 + int (length chs)) = Suc (length chs)" by simp
    show ?thesis
      using assms(6,7,8,9)
      by (simp add: getChapterTitle_def Let_def syntheticTitle_def n)
  qed
  have "parseChapter parser archive opfPath m tocMap spineId (length chs)
        = Inr (Some \<lparr>title = [0x7AE0, 0x8282, 0x20] @ digitsOf (length chs + 1),
                      paragraphs' = extractParagraphs (chapterDoc parser content),
                      wordCount = length (filter (\<lambda>c. \<not> isWhiteSpace c)
                                    (concat (extractParagraphs (chapterDoc parser content))))\<rparr>)"
    using assms(1,2,3,4,5) t by (auto simp: parseChapter_def Let_def)
  then show ?thesis by simp
qed

theorem synthesized_chapter_title_witness:
  "parseChapters (demoParser demoItems [''c0'', ''img'', ''c1'', ''c2'', ''c3'']) (demoArchive demoFiles)
     (js ''OEBPS/content.opf'') (buildManifest demoItems) [] [js ''c3'']
     [\<lparr>title = js ''Kept'', paragraphs' = [js ''Second one''], wordCount = 9\<rparr>]
   = Inr [\<lparr>title = js ''Kept'', paragraphs' = [js ''Second one''], wordCount = 9\<rparr>,
          \<lparr>title = [0x7AE0, 0x8282, 0x20, 0x32], paragraphs' = [js ''Third''], wordCount = 5\<rparr>]"
proof -
  let ?P = "demoParser demoItems [''c0'', ''img'', ''c1'', ''c2'', ''c3'']"
  let ?A = "demoArchive demoFiles"
  let ?item = "\<lparr>href = js ''three.xhtml'', mediaType = js ''application/xhtml+xml''\<rparr>"
  have 1: "mapGet (buildManifest demoItems) (js ''c3'') = Some ?item" by code_simp
  have 2: "jsIncludes (mediaType ?item) (js ''html'') \<or> jsIncludes (mediaType ?item) (js ''xml'')"
    by code_simp
  have 3: "resolvePath (js ''OEBPS/content.opf'') (href ?item) = Inr (js ''OEBPS/three.xhtml'')"
    by code_simp
  have 4: "?A (js ''OEBPS/three.xhtml'') = Some (js ''Third'')" by code_simp
  have 5: "extractParagraphs (chapterDoc ?P (js ''Third'')) \<noteq> []" by code_simp
  have 6: "orEmpty (mapGet [] (href ?item)) = []" by code_simp
  have 7: "decodeURIComponent (href ?item) = Inr (js ''three.xhtml'')" by code_simp
  have 8: "orEmpty (mapGet [] (js ''three.xhtml'')) = []" by code_simp
  have 9: "nonEmptyTrimmed (headings (chapterDoc ?P (js ''Third''))) = []" by code_simp
  have v: "\<lparr>title = [0x7AE0, 0x8282, 0x20] @
                    digitsOf (length [\<lparr>title = js ''Kept'', paragraphs' = [js ''Second one''], wordCount = 9\<rparr>] + 1),
            paragraphs' = extractParagraphs (chapterDoc ?P (js ''Third'')),
            wordCount = length (filter (\<lambda>c. \<not> isWhiteSpace c)
                          (concat (extractParagraphs (chapterDoc ?P (js ''Third'')))))\<rparr>
           = \<lparr>title = [0x7AE0, 0x8282, 0x20, 0x32], paragraphs' = [js ''Third''], wordCount = 5\<rparr>"
    by code_simp
  note inst = synthesized_chapter_title[where m = "buildManifest demoItems" and spineId = "js ''c3''"
      and item = ?item and opfPath = "js ''OEBPS/content.opf''"
      and chapterPath = "js ''OEBPS/three.xhtml''" and archive = ?A and content = "js ''Third''"
      and parser = ?P and tocMap = "[]" and decoded = "js ''three.xhtml''" and spineIds = "[]"
      and chs = "[\<lparr>title = js ''Kept'', paragraphs' = [js ''Second one''], wordCount = 9\<rparr>]"]
  from inst[OF 1 2 3 4 5 6 7 8 9] show ?thesis unfolding v by simp
qed

text \<open>
  Claim C7 as stated names the title \<open>Chapter n\<close>; the source builds it from the
  characters U+7AE0 U+8282. In the concrete book the two kept chapters, fourth and fifth
  in the spine, get the numbers 1 and 2 behind that label, not behind \<open>Chapter\<close>.
\<close>

theorem synthesized_title_label_counterexample:
  "parseEpub (demoParser demoItems [''c0'', ''img'', ''c1'', ''c2'', ''c3'']) (demoArchive demoFiles)
   = Inr \<lparr>bookTitle = js ''Book'',
          chapters = [\<lparr>title = [0x7AE0, 0x8282, 0x20, 0x31], paragraphs' = [js ''Second one''],
                       wordCount = 9\<rparr>,
                      \<lparr>title = [0x7AE0, 0x8282, 0x20, 0x32], paragraphs' = [js ''Third''],
                       wordCount = 5\<rparr>]\<rparr> \<and>
   [0x7AE0, 0x8282, 0x20, 0x31] \<noteq> js ''Chapter 1'' \<and>
   [0x7AE0, 0x8282, 0x20, 0x32] \<noteq> js ''Chapter 2''"
  using demo_run by (simp add: js_def)

end
